theory Spec2Isabelle
  imports Main "HOL-Library.Log_Nat"
begin

section \<open>Python values used by the receipt engine\<close>

subsection \<open>Errors\<close>

text \<open>
  The exceptions the modelled code can raise. Every function that can raise returns
  \<open>py_error + 'a\<close>, with \<open>Inl\<close> for the exception.
\<close>

datatype py_error = ValueError | ZeroDivisionError | OverflowError

subsection \<open>Floats (IEEE 754 binary64)\<close>

text \<open>
  A Python \<open>float\<close> is a binary64 number. A finite value is kept as the rational it
  denotes; negative zero, the infinities and NaN are separate constructors. Every
  arithmetic operation of binary64 is the exact operation followed by rounding to the
  nearest representable number, ties to the even significand (\<open>b64_round\<close>).
\<close>

datatype pyfloat = Fin rat | NegZero | PInf | NInf | NaN

definition round_half_even :: "rat \<Rightarrow> int" where
  "round_half_even q =
     (let f = \<lfloor>q\<rfloor>; d = q - of_int f
      in if d < 1 / 2 then f else if 1 / 2 < d then f + 1 else if even f then f else f + 1)"

definition flog2 :: "rat \<Rightarrow> int" where
  "flog2 q = (let (a, b) = quotient_of q; n = bitlen a - bitlen b
              in if 2 powi n \<le> q then n else n - 1)"

definition b64_round :: "rat \<Rightarrow> pyfloat" where
  "b64_round q =
     (if q = 0 then Fin 0
      else let e = max (- 1074) (flog2 \<bar>q\<bar> - 52);
               m = round_half_even (\<bar>q\<bar> / 2 powi e);
               r = of_int m * 2 powi e
           in if 2 ^ 1024 \<le> r then (if q < 0 then NInf else PInf)
              else if m = 0 then (if q < 0 then NegZero else Fin 0)
              else Fin (if q < 0 then - r else r))"

fun fneg :: "pyfloat \<Rightarrow> pyfloat" where
  "fneg (Fin q) = (if q = 0 then NegZero else Fin (- q))"
| "fneg NegZero = Fin 0"
| "fneg PInf = NInf"
| "fneg NInf = PInf"
| "fneg NaN = NaN"

fun fabs :: "pyfloat \<Rightarrow> pyfloat" where
  "fabs (Fin q) = Fin \<bar>q\<bar>"
| "fabs NegZero = Fin 0"
| "fabs PInf = PInf"
| "fabs NInf = PInf"
| "fabs NaN = NaN"

fun fadd :: "pyfloat \<Rightarrow> pyfloat \<Rightarrow> pyfloat" where
  "fadd NaN _ = NaN"
| "fadd _ NaN = NaN"
| "fadd PInf NInf = NaN"
| "fadd NInf PInf = NaN"
| "fadd PInf _ = PInf"
| "fadd _ PInf = PInf"
| "fadd NInf _ = NInf"
| "fadd _ NInf = NInf"
| "fadd NegZero y = y"
| "fadd x NegZero = x"
| "fadd (Fin a) (Fin b) = b64_round (a + b)"

definition fsub :: "pyfloat \<Rightarrow> pyfloat \<Rightarrow> pyfloat" where
  "fsub x y = fadd x (fneg y)"

text \<open>The sign bit: true for negative numbers, negative zero and minus infinity.\<close>

fun fsign :: "pyfloat \<Rightarrow> bool" where
  "fsign (Fin q) = (q < 0)"
| "fsign NegZero = True"
| "fsign NInf = True"
| "fsign _ = False"

fun is_zero :: "pyfloat \<Rightarrow> bool" where
  "is_zero (Fin q) = (q = 0)"
| "is_zero NegZero = True"
| "is_zero _ = False"

fun is_inf :: "pyfloat \<Rightarrow> bool" where
  "is_inf PInf = True"
| "is_inf NInf = True"
| "is_inf _ = False"

fun rat_of :: "pyfloat \<Rightarrow> rat" where
  "rat_of (Fin q) = q"
| "rat_of _ = 0"

definition signed_zero :: "bool \<Rightarrow> pyfloat" where
  "signed_zero neg = (if neg then NegZero else Fin 0)"

definition signed_inf :: "bool \<Rightarrow> pyfloat" where
  "signed_inf neg = (if neg then NInf else PInf)"

definition fmul :: "pyfloat \<Rightarrow> pyfloat \<Rightarrow> pyfloat" where
  "fmul x y =
     (if x = NaN \<or> y = NaN then NaN
      else if (is_inf x \<and> is_zero y) \<or> (is_zero x \<and> is_inf y) then NaN
      else if is_inf x \<or> is_inf y then signed_inf (fsign x \<noteq> fsign y)
      else if is_zero x \<or> is_zero y then signed_zero (fsign x \<noteq> fsign y)
      else b64_round (rat_of x * rat_of y))"

text \<open>Python raises \<open>ZeroDivisionError\<close> on a float division by either zero.\<close>

definition fdiv :: "pyfloat \<Rightarrow> pyfloat \<Rightarrow> py_error + pyfloat" where
  "fdiv x y =
     (if is_zero y then Inl ZeroDivisionError
      else if x = NaN \<or> y = NaN then Inr NaN
      else if is_inf x \<and> is_inf y then Inr NaN
      else if is_inf x then Inr (signed_inf (fsign x \<noteq> fsign y))
      else if is_inf y \<or> is_zero x then Inr (signed_zero (fsign x \<noteq> fsign y))
      else Inr (b64_round (rat_of x / rat_of y)))"

text \<open>Comparisons: every comparison with NaN is false, and the two zeros are equal.\<close>

fun fle :: "pyfloat \<Rightarrow> pyfloat \<Rightarrow> bool" where
  "fle NaN _ = False"
| "fle _ NaN = False"
| "fle NInf _ = True"
| "fle _ PInf = True"
| "fle PInf _ = False"
| "fle _ NInf = False"
| "fle x y = (rat_of x \<le> rat_of y)"

definition feq :: "pyfloat \<Rightarrow> pyfloat \<Rightarrow> bool" where
  "feq x y = (fle x y \<and> fle y x)"

definition flt :: "pyfloat \<Rightarrow> pyfloat \<Rightarrow> bool" where
  "flt x y = (fle x y \<and> \<not> fle y x)"

text \<open>Conversion of a Python \<open>int\<close>, correctly rounded.\<close>

definition float_of_int :: "int \<Rightarrow> pyfloat" where
  "float_of_int n = b64_round (of_int n)"

subsection \<open>Formatting\<close>

function str_int :: "int \<Rightarrow> string" where
  "str_int n = (if n < 10 then [char_of (48 + n)] else str_int (n div 10) @ [char_of (48 + n mod 10)])"
  by pat_completeness auto
termination
  by (relation "measure nat") auto

declare str_int.simps [simp del]

text \<open>
  \<open>format(x, '.pf')\<close>: the exact value rounded to \<open>p\<close> fraction digits, ties to even, the
  fraction zero-padded; a negative value keeps its sign even when it rounds to zero.
\<close>

definition fmt_fixed :: "nat \<Rightarrow> pyfloat \<Rightarrow> string" where
  "fmt_fixed p x =
     (case x of
        NaN \<Rightarrow> ''nan''
      | PInf \<Rightarrow> ''inf''
      | NInf \<Rightarrow> ''-inf''
      | _ \<Rightarrow>
         (let n = round_half_even (\<bar>rat_of x\<bar> * 10 ^ p);
              ip = str_int (n div 10 ^ p);
              fp = str_int (n mod 10 ^ p);
              frac = replicate (p - length fp) CHR ''0'' @ fp
          in (if fsign x then ''-'' else '''') @ ip @ (if p = 0 then '''' else CHR ''.'' # frac)))"

subsection \<open>Strings\<close>

text \<open>
  A Python \<open>str\<close> is modelled as a list of \<open>char\<close>, one \<open>char\<close> per code point, so
  the texts covered are those over the code points 0 to 255. \<open>py_isspace\<close> is the
  whitespace test shared by \<open>str.strip\<close> and the regular expression class \<open>\s\<close>;
  \<open>py_isdigit\<close> is the class \<open>\d\<close>; \<open>py_lower\<close> is \<open>str.lower\<close> on one character.
\<close>

definition py_isspace :: "char \<Rightarrow> bool" where
  "py_isspace c = (c \<in> set [CHR 0x09, CHR 0x0A, CHR 0x0B, CHR 0x0C, CHR 0x0D,
                              CHR 0x1C, CHR 0x1D, CHR 0x1E, CHR 0x1F, CHR 0x20,
                              CHR 0x85, CHR 0xA0])"

definition py_isdigit :: "char \<Rightarrow> bool" where
  "py_isdigit c = (c \<in> set ''0123456789'')"

definition py_lower :: "char \<Rightarrow> char" where
  "py_lower c =
     (let n = (of_char c :: nat)
      in if (65 \<le> n \<and> n \<le> 90) \<or> (192 \<le> n \<and> n \<le> 222 \<and> n \<noteq> 215)
         then char_of (n + 32) else c)"

definition lower :: "string \<Rightarrow> string" where
  "lower s = map py_lower s"

definition strip :: "string \<Rightarrow> string" where
  "strip s = rev (dropWhile py_isspace (rev (dropWhile py_isspace s)))"

text \<open>\<open>s.split('\n')\<close>: the pieces between line feeds, empty pieces included.\<close>

fun split_acc :: "string \<Rightarrow> string \<Rightarrow> string list" where
  "split_acc cur [] = [rev cur]"
| "split_acc cur (c # cs) =
     (if c = CHR 0x0A then rev cur # split_acc [] cs else split_acc (c # cur) cs)"

definition split_lines :: "string \<Rightarrow> string list" where
  "split_lines s = split_acc [] s"

text \<open>\<open>x in s\<close> on strings: \<open>x\<close> occurs in \<open>s\<close> as a contiguous piece.\<close>

fun str_in :: "string \<Rightarrow> string \<Rightarrow> bool" where
  "str_in x [] = (x = [])"
| "str_in x (c # cs) = (take (length x) (c # cs) = x \<or> str_in x cs)"

text \<open>\<open>s.replace(',', '')\<close>.\<close>

definition remove_commas :: "string \<Rightarrow> string" where
  "remove_commas s = filter (\<lambda>c. c \<noteq> CHR '','') s"

subsection \<open>Numbers from text\<close>

definition digit_val :: "char \<Rightarrow> int" where
  "digit_val c = int (of_char c) - 48"

definition dec_val :: "string \<Rightarrow> int" where
  "dec_val ds = foldl (\<lambda>a c. 10 * a + digit_val c) 0 ds"

text \<open>\<open>int(s)\<close> for a string of decimal digits; any other string is answered by
  \<open>ValueError\<close>.\<close>

definition py_int :: "string \<Rightarrow> py_error + int" where
  "py_int s = (if s \<noteq> [] \<and> list_all py_isdigit s then Inr (dec_val s) else Inl ValueError)"

text \<open>
  \<open>float(s)\<close> for an unsigned decimal literal: digits, an optional point, digits, with a
  digit on at least one side. The conversion is correctly rounded. Any other string is
  answered by \<open>ValueError\<close>; the callers only pass digits and one point.
\<close>

definition py_float :: "string \<Rightarrow> py_error + pyfloat" where
  "py_float s =
     (let ip = takeWhile py_isdigit s; r = dropWhile py_isdigit s
      in case r of
           [] \<Rightarrow> (if ip = [] then Inl ValueError else Inr (b64_round (of_int (dec_val ip))))
         | c # fp \<Rightarrow>
             (if c = CHR ''.'' \<and> list_all py_isdigit fp \<and> (ip \<noteq> [] \<or> fp \<noteq> [])
              then Inr (b64_round (of_int (dec_val ip) + of_int (dec_val fp) / 10 ^ length fp))
              else Inl ValueError))"

text \<open>\<open>max(xs)\<close> on a non-empty list: the running maximum is replaced when an
  element compares greater.\<close>

definition py_max :: "pyfloat \<Rightarrow> pyfloat list \<Rightarrow> pyfloat" where
  "py_max x xs = foldl (\<lambda>m y. if flt m y then y else m) x xs"

section \<open>Regular expressions (\<open>re\<close>)\<close>

text \<open>
  The fragment of \<open>re\<close> that the patterns of the repository use. A class is a list of
  items; \<open>Many cs lo hi\<close> is the greedy repetition of a class (\<open>*\<close>, \<open>+\<close>, \<open>{m,n}\<close>),
  \<open>Group\<close> is the one capturing group each pattern has.
\<close>

datatype citem = Space | Digit | Ch char

datatype regex =
    Lit string
  | Cls "citem list"
  | Many "citem list" nat "nat option"
  | Seq "regex list"
  | Alt "regex list"
  | Group regex
  | Bol
  | Eol

text \<open>A matcher state: the position in the subject, the text from there on, and the
  text captured by the group so far.\<close>

type_synonym mstate = "nat \<times> string \<times> string option"

definition ch_eq :: "bool \<Rightarrow> char \<Rightarrow> char \<Rightarrow> bool" where
  "ch_eq ic a b = (if ic then py_lower a = py_lower b else a = b)"

fun in_item :: "bool \<Rightarrow> char \<Rightarrow> citem \<Rightarrow> bool" where
  "in_item ic c Space = py_isspace c"
| "in_item ic c Digit = py_isdigit c"
| "in_item ic c (Ch d) = ch_eq ic c d"

definition in_cls :: "bool \<Rightarrow> citem list \<Rightarrow> char \<Rightarrow> bool" where
  "in_cls ic cs c = list_ex (in_item ic c) cs"

text \<open>
  \<open>ms ic r st\<close> lists the states in which \<open>r\<close> can end when started in \<open>st\<close>, in the order
  in which the backtracking matcher tries them: a greedy repetition offers its longest
  run first, an alternation its branches from left to right. \<open>ic\<close> is the flag \<open>(?i)\<close>.
\<close>

fun ms :: "bool \<Rightarrow> regex \<Rightarrow> mstate \<Rightarrow> mstate list"
  and ms_seq :: "bool \<Rightarrow> regex list \<Rightarrow> mstate \<Rightarrow> mstate list"
  and ms_alt :: "bool \<Rightarrow> regex list \<Rightarrow> mstate \<Rightarrow> mstate list" where
  "ms ic (Lit w) (p, s, g) =
     (if length w \<le> length s \<and> list_all2 (ch_eq ic) (take (length w) s) w
      then [(p + length w, drop (length w) s, g)] else [])"
| "ms ic (Cls cs) (p, s, g) =
     (case s of [] \<Rightarrow> [] | c # s' \<Rightarrow> if in_cls ic cs c then [(p + 1, s', g)] else [])"
| "ms ic (Many cs lo hi) (p, s, g) =
     (let n = length (takeWhile (in_cls ic cs) s);
          n' = (case hi of None \<Rightarrow> n | Some h \<Rightarrow> min n h)
      in map (\<lambda>k. (p + k, drop k s, g)) (rev [lo..<Suc n']))"
| "ms ic (Seq rs) st = ms_seq ic rs st"
| "ms ic (Alt rs) st = ms_alt ic rs st"
| "ms ic (Group r) (p, s, g) =
     map (\<lambda>(p', s', g'). (p', s', Some (take (p' - p) s))) (ms ic r (p, s, g))"
| "ms ic Bol (p, s, g) = (if p = 0 then [(p, s, g)] else [])"
| "ms ic Eol (p, s, g) = (if s = [] \<or> s = [CHR 0x0A] then [(p, s, g)] else [])"
| "ms_seq ic [] st = [st]"
| "ms_seq ic (r # rs) st = concat (map (ms_seq ic rs) (ms ic r st))"
| "ms_alt ic [] st = []"
| "ms_alt ic (r # rs) st = ms ic r st @ ms_alt ic rs st"

text \<open>The match at a position is the first state the matcher reaches.\<close>

definition match_at :: "bool \<Rightarrow> regex \<Rightarrow> nat \<Rightarrow> string \<Rightarrow> mstate option" where
  "match_at ic r p s = (case ms ic r (p, s, None) of [] \<Rightarrow> None | st # _ \<Rightarrow> Some st)"

text \<open>A match object: start, end and the text of group 1.\<close>

record match_obj =
  m_start :: nat
  m_end :: nat
  m_group :: string

definition mk_match :: "nat \<Rightarrow> mstate \<Rightarrow> match_obj" where
  "mk_match p st =
     (case st of (e, _, g) \<Rightarrow>
        \<lparr>m_start = p, m_end = e, m_group = (case g of None \<Rightarrow> [] | Some x \<Rightarrow> x)\<rparr>)"

text \<open>\<open>re.match\<close>: the match at position 0, if any.\<close>

definition re_match :: "bool \<Rightarrow> regex \<Rightarrow> string \<Rightarrow> match_obj option" where
  "re_match ic r s = map_option (mk_match 0) (match_at ic r 0 s)"

text \<open>\<open>re.search\<close>: the match at the first position that has one.\<close>

fun search_from :: "bool \<Rightarrow> regex \<Rightarrow> nat \<Rightarrow> string \<Rightarrow> match_obj option" where
  "search_from ic r p [] = map_option (mk_match p) (match_at ic r p [])"
| "search_from ic r p (c # cs) =
     (case match_at ic r p (c # cs) of
        Some st \<Rightarrow> Some (mk_match p st)
      | None \<Rightarrow> search_from ic r (Suc p) cs)"

definition re_search :: "bool \<Rightarrow> regex \<Rightarrow> string \<Rightarrow> match_obj option" where
  "re_search ic r s = search_from ic r 0 s"

text \<open>
  \<open>re.findall\<close> for a pattern with one group: scanning from the left, the group of each
  match, the scan resuming where the match ended (one character further on after a
  match that consumed nothing).
\<close>

function findall_from :: "bool \<Rightarrow> regex \<Rightarrow> nat \<Rightarrow> string \<Rightarrow> string list" where
  "findall_from ic r p s =
     (case match_at ic r p s of
        None \<Rightarrow> (case s of [] \<Rightarrow> [] | c # cs \<Rightarrow> findall_from ic r (Suc p) cs)
      | Some (e, rest, g) \<Rightarrow>
          m_group (mk_match p (e, rest, g)) #
            (if length rest < length s then findall_from ic r e rest
             else (case s of [] \<Rightarrow> [] | c # cs \<Rightarrow> findall_from ic r (Suc p) cs)))"
  by pat_completeness auto
termination
  by (relation "measure (\<lambda>(ic, r, p, s). length s)") auto

declare findall_from.simps [simp del]

definition re_findall :: "bool \<Rightarrow> regex \<Rightarrow> string \<Rightarrow> string list" where
  "re_findall ic r s = findall_from ic r 0 s"

section \<open>Rule-based extraction (\<open>app.py\<close>)\<close>

subsection \<open>The patterns\<close>

text \<open>\<^verbatim>\<open>(\d{1,2}[/-]\d{1,2}[/-]\d{2,4}|\d{4}[/-]\d{1,2}[/-]\d{1,2})\<close>\<close>

definition date_pattern :: regex where
  "date_pattern =
     Group (Alt [Seq [Many [Digit] 1 (Some 2), Cls [Ch CHR ''/'', Ch CHR ''-''],
                      Many [Digit] 1 (Some 2), Cls [Ch CHR ''/'', Ch CHR ''-''],
                      Many [Digit] 2 (Some 4)],
                 Seq [Many [Digit] 4 (Some 4), Cls [Ch CHR ''/'', Ch CHR ''-''],
                      Many [Digit] 1 (Some 2), Cls [Ch CHR ''/'', Ch CHR ''-''],
                      Many [Digit] 1 (Some 2)]])"

text \<open>\<^verbatim>\<open>([\d,]+\.\d{2})\<close>, the amount shared by the three patterns below.\<close>

definition amount_group :: regex where
  "amount_group = Group (Seq [Many [Digit, Ch CHR '',''] 1 None, Lit ''.'', Many [Digit] 2 (Some 2)])"

text \<open>\<^verbatim>\<open>(?i)(?:Total|Amount|Due|Balance|Grand Total)[\s:$]*([\d,]+\.\d{2})\<close>\<close>

definition total_pattern :: regex where
  "total_pattern =
     Seq [Alt [Lit ''Total'', Lit ''Amount'', Lit ''Due'', Lit ''Balance'', Lit ''Grand Total''],
          Many [Space, Ch CHR '':'', Ch CHR ''$''] 0 None,
          amount_group]"

text \<open>\<^verbatim>\<open>(?i)(?:Tax|VAT|GST|Sales\s*Tax)[\s:$]*([\d,]+\.\d{2})\<close>\<close>

definition tax_pattern :: regex where
  "tax_pattern =
     Seq [Alt [Lit ''Tax'', Lit ''VAT'', Lit ''GST'',
               Seq [Lit ''Sales'', Many [Space] 0 None, Lit ''Tax'']],
          Many [Space, Ch CHR '':'', Ch CHR ''$''] 0 None,
          amount_group]"

text \<open>\<^verbatim>\<open>[\s$]([\d,]+\.\d{2})\s*$\<close>\<close>

definition price_pattern :: regex where
  "price_pattern = Seq [Cls [Space, Ch CHR ''$''], amount_group, Many [Space] 0 None, Eol]"

text \<open>\<^verbatim>\<open>^(\d+)\s*[xX]\s*\<close>\<close>

definition qty_pattern :: regex where
  "qty_pattern =
     Seq [Bol, Group (Many [Digit] 1 None), Many [Space] 0 None,
          Cls [Ch CHR ''x'', Ch CHR ''X''], Many [Space] 0 None]"

subsection \<open>\<open>parse_receipt_data\<close>\<close>

text \<open>The dictionary \<open>data\<close> with its four keys.\<close>

record receipt_fields =
  merchant :: string
  date :: string
  total :: pyfloat
  tax :: pyfloat

text \<open>The \<open>try\<close> block around the total: an exception leaves the default in place.\<close>

definition extract_total :: "string \<Rightarrow> pyfloat" where
  "extract_total text =
     (let amount_match = re_findall True total_pattern text
      in if amount_match \<noteq> []
         then (case py_float (remove_commas (last amount_match)) of
                 Inr v \<Rightarrow> v
               | Inl _ \<Rightarrow> Fin 0)
         else Fin 0)"

fun floats_of :: "string list \<Rightarrow> py_error + pyfloat list" where
  "floats_of [] = Inr []"
| "floats_of (t # ts) =
     (case py_float (remove_commas t) of
        Inl e \<Rightarrow> Inl e
      | Inr v \<Rightarrow> (case floats_of ts of Inl e \<Rightarrow> Inl e | Inr vs \<Rightarrow> Inr (v # vs)))"

definition extract_tax :: "string \<Rightarrow> pyfloat" where
  "extract_tax text =
     (let tax_match = re_findall True tax_pattern text
      in if tax_match \<noteq> []
         then (case floats_of tax_match of
                 Inr taxes \<Rightarrow> (case taxes of [] \<Rightarrow> Fin 0 | v # vs \<Rightarrow> py_max v vs)
               | Inl _ \<Rightarrow> Fin 0)
         else Fin 0)"

text \<open>
  \<open>now\<close> is the value of \<^verbatim>\<open>datetime.now().strftime("%Y-%m-%d")\<close> at the call: the
  clock is the one input of the function besides the text.
\<close>

definition parse_receipt_data :: "string \<Rightarrow> string \<Rightarrow> receipt_fields" where
  "parse_receipt_data now text =
     (let lines = filter (\<lambda>l. l \<noteq> []) (map strip (split_lines text));
          merchant_v = (case lines of [] \<Rightarrow> ''Unknown'' | l # _ \<Rightarrow> l);
          date_v = (case re_search False date_pattern text of
                      Some m \<Rightarrow> take (m_end m - m_start m) (drop (m_start m) text)
                    | None \<Rightarrow> now)
      in \<lparr>merchant = merchant_v, date = date_v,
          total = extract_total text, tax = extract_tax text\<rparr>)"

subsection \<open>\<open>parse_line_items_data\<close>\<close>

record line_item =
  name :: string
  qty :: int
  price :: pyfloat

definition summary_words :: "string list" where
  "summary_words = [''total'', ''amount'', ''due'', ''visa'', ''mastercard'', ''cash'', ''change'', ''tax'']"

text \<open>The body of the loop for one line: the item appended, if any.\<close>

definition parse_line :: "string \<Rightarrow> line_item option" where
  "parse_line raw_line =
     (let line = strip raw_line
      in case re_search False price_pattern line of
           None \<Rightarrow> None
         | Some price_match \<Rightarrow>
             (case py_float (remove_commas (m_group price_match)) of
                Inl _ \<Rightarrow> None
              | Inr price_v \<Rightarrow>
                  (let name_part = strip (take (m_start price_match) line)
                   in if list_ex (\<lambda>x. str_in x (lower name_part)) summary_words then None
                      else (case re_match False qty_pattern name_part of
                              Some qty_match \<Rightarrow>
                                (case py_int (m_group qty_match) of
                                   Inl _ \<Rightarrow> None
                                 | Inr q \<Rightarrow>
                                     (let name_v = strip (drop (m_end qty_match) name_part)
                                      in if name_v \<noteq> []
                                         then Some \<lparr>name = name_v, qty = q, price = price_v\<rparr>
                                         else None))
                            | None \<Rightarrow>
                                (if name_part \<noteq> []
                                 then Some \<lparr>name = name_part, qty = 1, price = price_v\<rparr>
                                 else None)))))"

definition parse_line_items_data :: "string \<Rightarrow> line_item list" where
  "parse_line_items_data text = List.map_filter parse_line (split_lines text)"

section \<open>The receipt store of \<open>app.py\<close>\<close>

text \<open>
  The two tables of \<open>receipt_vault1.db\<close>, each a list of rows in insertion order, and
  the \<open>AUTOINCREMENT\<close> counters: the largest id each table has handed out.
\<close>

record receipt_row =
  r_id :: nat
  r_merchant :: string
  r_date :: string
  r_total_amount :: pyfloat
  r_tax_amount :: pyfloat
  r_filename :: string
  r_upload_timestamp :: string

record line_item_row =
  li_id :: nat
  li_receipt_id :: nat
  li_name :: string
  li_qty :: int
  li_price :: pyfloat

record vault =
  receipts :: "receipt_row list"
  line_items :: "line_item_row list"
  receipts_seq :: nat
  line_items_seq :: nat

text \<open>
  \<^verbatim>\<open>SELECT id FROM receipts WHERE merchant = ? AND date = ? AND total_amount = ?\<close>,
  then \<open>fetchone\<close>: the first matching row or \<open>None\<close>. The comparison of the \<open>REAL\<close>
  column is the comparison of floats.
\<close>

definition check_if_receipt_exists :: "vault \<Rightarrow> string \<Rightarrow> string \<Rightarrow> pyfloat \<Rightarrow> bool" where
  "check_if_receipt_exists db merchant_v date_v total_v =
     (let data = find (\<lambda>r. r_merchant r = merchant_v \<and> r_date r = date_v
                            \<and> feq (r_total_amount r) total_v) (receipts db)
      in data \<noteq> None)"

text \<open>
  The loop of \<open>INSERT\<close>s into \<open>line_items\<close>. Binding a Python \<open>int\<close> beyond 64 bits
  raises \<open>OverflowError\<close>.
\<close>

fun insert_items :: "nat \<Rightarrow> nat \<Rightarrow> line_item list \<Rightarrow> py_error + line_item_row list" where
  "insert_items receipt_id seq [] = Inr []"
| "insert_items receipt_id seq (item # items) =
     (if qty item < - (2 ^ 63) \<or> 2 ^ 63 \<le> qty item then Inl OverflowError
      else (case insert_items receipt_id (Suc seq) items of
              Inl e \<Rightarrow> Inl e
            | Inr rows \<Rightarrow>
                Inr (\<lparr>li_id = Suc seq, li_receipt_id = receipt_id, li_name = name item,
                       li_qty = qty item, li_price = price item\<rparr> # rows)))"

text \<open>
  \<open>save_receipt_to_db\<close>: one receipt row, one row per item, then \<open>commit\<close>. An exception
  before the commit leaves the database as it was. \<open>upload_time\<close> is the value of
  \<^verbatim>\<open>datetime.now().strftime("%Y-%m-%d %H:%M:%S")\<close> at the call.
\<close>

definition save_receipt_to_db ::
  "vault \<Rightarrow> string \<Rightarrow> string \<Rightarrow> string \<Rightarrow> pyfloat \<Rightarrow> pyfloat \<Rightarrow> string \<Rightarrow> line_item list
     \<Rightarrow> py_error + vault \<times> bool" where
  "save_receipt_to_db db upload_time merchant_v date_v total_v tax_v filename line_items_data =
     (let receipt_id = Suc (receipts_seq db);
          row = \<lparr>r_id = receipt_id, r_merchant = merchant_v, r_date = date_v,
                 r_total_amount = total_v, r_tax_amount = tax_v, r_filename = filename,
                 r_upload_timestamp = upload_time\<rparr>
      in case insert_items receipt_id (line_items_seq db) line_items_data of
           Inl e \<Rightarrow> Inl e
         | Inr rows \<Rightarrow>
             Inr (\<lparr>receipts = receipts db @ [row],
                    line_items = line_items db @ rows,
                    receipts_seq = receipt_id,
                    line_items_seq = line_items_seq db + length rows\<rparr>, True))"

subsection \<open>The upload handler of \<open>main\<close>\<close>

datatype upload_outcome = Duplicate_Detected string | Saved | Raised py_error

text \<open>
  \<open>raw_text\<close> is the text returned by the OCR engine; \<open>now\<close> and \<open>upload_time\<close> are the
  two readings of the clock.
\<close>

definition process_upload ::
  "vault \<Rightarrow> string \<Rightarrow> string \<Rightarrow> string \<Rightarrow> string \<Rightarrow> vault \<times> upload_outcome" where
  "process_upload db now upload_time filename raw_text =
     (let receipt_data = parse_receipt_data now raw_text;
          line_items_v = parse_line_items_data raw_text;
          is_duplicate = check_if_receipt_exists db (merchant receipt_data) (date receipt_data)
                           (total receipt_data)
      in if is_duplicate
         then (db, Duplicate_Detected (''Duplicate Receipt Detected from '' @ merchant receipt_data @ ''!''))
         else (case save_receipt_to_db db upload_time (merchant receipt_data) (date receipt_data)
                      (total receipt_data) (tax receipt_data) filename line_items_v of
                 Inl e \<Rightarrow> (db, Raised e)
               | Inr (db', _) \<Rightarrow> (db', Saved)))"

subsection \<open>Reconciliation of the stored items with the stored total\<close>






section \<open>The service-based variant (\<open>Milestone 2/main.py\<close>)\<close>

subsection \<open>Duplicate detection\<close>

text \<open>
  A row of the table \<open>receipts\<close> of \<open>receipt_vault_v6.db\<close>. The text columns hold what
  the service returned, which can be \<open>NULL\<close> (\<open>None\<close>).
\<close>

record receipt_row_m2 =
  m2_id :: nat
  m2_merchant :: "string option"
  m2_date :: "string option"
  m2_invoice_number :: "string option"
  m2_subtotal :: pyfloat
  m2_tax :: pyfloat
  m2_total_amount :: pyfloat
  m2_filename :: string
  m2_upload_timestamp :: string

text \<open>One conjunct \<open>column = ?\<close> of the \<open>WHERE\<close> clause with its bound parameter.\<close>

datatype sql_cond =
    Merchant_Eq string
  | Date_Eq string
  | Total_Amount_Eq pyfloat
  | Invoice_Number_Eq string

fun holds :: "receipt_row_m2 \<Rightarrow> sql_cond \<Rightarrow> bool" where
  "holds r (Merchant_Eq x) = (m2_merchant r = Some x)"
| "holds r (Date_Eq x) = (m2_date r = Some x)"
| "holds r (Total_Amount_Eq x) = feq (m2_total_amount r) x"
| "holds r (Invoice_Number_Eq x) = (m2_invoice_number r = Some x)"

text \<open>
  \<open>invoice_num\<close> is \<open>None\<close> or a string; the test \<^verbatim>\<open>invoice_num and invoice_num != "Unknown"\<close>
  is false for \<open>None\<close>, for the empty string and for the sentinel.
\<close>

definition check_if_receipt_exists_m2 ::
  "receipt_row_m2 list \<Rightarrow> string \<Rightarrow> string \<Rightarrow> pyfloat \<Rightarrow> string option \<Rightarrow> bool \<times> nat" where
  "check_if_receipt_exists_m2 rows merchant_v date_v total_v invoice_num =
     (let query = [Merchant_Eq merchant_v, Date_Eq date_v, Total_Amount_Eq total_v];
          query = (case invoice_num of
                     None \<Rightarrow> query
                   | Some num \<Rightarrow> if num \<noteq> [] \<and> num \<noteq> ''Unknown''
                                 then query @ [Invoice_Number_Eq num] else query);
          data = filter (\<lambda>r. list_all (holds r) query) rows
      in (0 < length data, length data))"

subsection \<open>\<open>validate_receipt\<close>\<close>

text \<open>
  The dictionary built from the service's answer: the four keys of the rule-based
  dictionary and \<open>invoice_number\<close>, \<open>subtotal\<close>.
\<close>

record receipt_data = receipt_fields +
  invoice_number :: string
  subtotal :: pyfloat

type_synonym verdict = "string \<rightharpoonup> bool \<times> string"

definition join_comma :: "string list \<Rightarrow> string" where
  "join_comma xs = (case xs of [] \<Rightarrow> [] | y # ys \<Rightarrow> foldl (\<lambda>acc s. acc @ '', '' @ s) y ys)"

definition validate_receipt :: "receipt_data \<Rightarrow> bool \<Rightarrow> py_error + verdict" where
  "validate_receipt d is_dup_bool =
     (let sub = subtotal d; tx = tax d; tot = total d;
          calc_total = fadd sub tx;
          results = Map.empty
            (''math'' \<mapsto>
               (if fle (fabs (fsub calc_total tot)) (b64_round (3 / 100))
                then (True, ''Pass: '' @ fmt_fixed 2 sub @ '' + '' @ fmt_fixed 2 tx
                              @ '' = '' @ fmt_fixed 2 tot)
                else (False, ''Fail: '' @ fmt_fixed 2 sub @ '' + '' @ fmt_fixed 2 tx
                               @ '' != '' @ fmt_fixed 2 tot)));
          results = results
            (''dup'' \<mapsto>
               (if \<not> is_dup_bool then (True, ''No duplicate found'')
                else (False, ''Potential duplicate entry detected in DB.'')));
          tax_rate_v =
            (if flt (Fin 0) sub
             then (case fdiv tx sub of
                     Inl e \<Rightarrow> Inl e
                   | Inr q \<Rightarrow>
                       (let rate = fmul q (float_of_int 100)
                        in if fle (Fin 0) rate \<and> fle rate (float_of_int 30)
                           then Inr (True, ''Tax Rate: '' @ fmt_fixed 1 rate @ ''% (Normal)'')
                           else Inr (False, ''Suspicious Tax Rate: '' @ fmt_fixed 1 rate @ ''%'')))
             else Inr (True, ''N/A''))
      in case tax_rate_v of
           Inl e \<Rightarrow> Inl e
         | Inr tr \<Rightarrow>
             (let results = results(''tax_rate'' \<mapsto> tr);
                  missing = (if merchant d = ''Unknown'' then [''Merchant''] else [])
                          @ (if date d = [] then [''Date''] else [])
                          @ (if feq (total d) (Fin 0) then [''Total''] else [])
              in Inr (results
                   (''fields'' \<mapsto>
                      (if missing = [] then (True, ''All required fields present'')
                       else (False, ''Missing: '' @ join_comma missing))))))"


section \<open>Observations and reference predicates\<close>

text \<open>
  \<^verbatim>\<open>validate_receipt(d, is_dup)['math']\<close>: the entry of the rule \<open>math\<close> in the dictionary
  the call returns, \<open>None\<close> if the call raises.
\<close>

definition math_verdict :: "receipt_data \<Rightarrow> bool \<Rightarrow> (bool \<times> string) option" where
  "math_verdict d is_dup_bool =
     (case validate_receipt d is_dup_bool of Inl e \<Rightarrow> None | Inr results \<Rightarrow> results ''math'')"

text \<open>A float that is a number: finite, or a zero of either sign.\<close>

definition finite_f :: "pyfloat \<Rightarrow> bool" where
  "finite_f x = (x \<noteq> NaN \<and> \<not> is_inf x)"

text \<open>
  The condition of the rule \<open>math\<close> as the specification words it, over exact amounts:
  \<open>|subtotal + tax - total| \<le> 0.03\<close>.
\<close>

definition math_rule_spec :: "rat \<Rightarrow> rat \<Rightarrow> rat \<Rightarrow> bool" where
  "math_rule_spec s t tot = (\<bar>s + t - tot\<bar> \<le> 3 / 100)"

text \<open>
  The duplicate test as the specification words it. The invoice number takes part in the
  comparison when it is present and is not the sentinel \<^verbatim>\<open>"Unknown"\<close>; a stored receipt is a
  duplicate of the query when every supplied field is equal to the stored one.
\<close>

definition invoice_participates :: "string option \<Rightarrow> bool" where
  "invoice_participates invoice_num =
     (case invoice_num of None \<Rightarrow> False | Some num \<Rightarrow> num \<noteq> [] \<and> num \<noteq> ''Unknown'')"

definition duplicate_of ::
  "string \<Rightarrow> string \<Rightarrow> pyfloat \<Rightarrow> string option \<Rightarrow> receipt_row_m2 \<Rightarrow> bool" where
  "duplicate_of merchant_v date_v total_v invoice_num r =
     (m2_merchant r = Some merchant_v \<and> m2_date r = Some date_v
      \<and> feq (m2_total_amount r) total_v
      \<and> (if invoice_participates invoice_num then m2_invoice_number r = invoice_num else True))"





section \<open>Example inputs\<close>

text \<open>The receipt of the boundary examples: subtotal 10.00, tax 0.80 and a given total.\<close>

definition boundary_receipt :: "rat \<Rightarrow> receipt_data" where
  "boundary_receipt t =
     \<lparr>merchant = ''Acme Mart'', date = ''2024-01-15'', total = b64_round t, tax = b64_round (4 / 5),
      invoice_number = ''Unknown'', subtotal = b64_round 10\<rparr>"


text \<open>A receipt text with a merchant line, a date, one item, a tax line and a total line.\<close>

definition example_text :: string where
  "example_text = ''Acme Mart'' @ [CHR 0x0A] @ ''01/15/2024'' @ [CHR 0x0A] @ ''2 x Coffee   8.00''
     @ [CHR 0x0A] @ ''Tax: 0.64'' @ [CHR 0x0A] @ ''Total: 8.64''"

text \<open>The store after that receipt was saved once.\<close>

definition example_vault :: vault where
  "example_vault =
     \<lparr>receipts = [\<lparr>r_id = 1, r_merchant = ''Acme Mart'', r_date = ''01/15/2024'',
                    r_total_amount = Fin (607985949695017 / 70368744177664),
                    r_tax_amount = Fin (5764607523034235 / 9007199254740992),
                    r_filename = ''receipt.png'', r_upload_timestamp = ''2024-01-15 10:00:00''\<rparr>],
      line_items = [\<lparr>li_id = 1, li_receipt_id = 1, li_name = ''Coffee'', li_qty = 2, li_price = Fin 8\<rparr>],
      receipts_seq = 1, line_items_seq = 1\<rparr>"

section \<open>Properties of the float model\<close>

lemma flog2_bounds:
  assumes "0 < q"
  shows "2 powi (flog2 q) \<le> q \<and> q < 2 powi (flog2 q + 1)"
proof -
  obtain a b where ab: "quotient_of q = (a, b)" by (cases "quotient_of q")
  have bpos: "0 < b" using ab by (rule quotient_of_denom_pos)
  have q: "q = of_int a / of_int b" using ab by (rule quotient_of_div)
  have apos: "0 < a" using assms bpos q by (simp add: zero_less_divide_iff)
  define la where "la = bitlen a"
  define lb where "lb = bitlen b"
  have la1: "1 \<le> la" using apos by (simp add: bitlen_alt_def la_def)
  have lb1: "1 \<le> lb" using bpos by (simp add: bitlen_alt_def lb_def)
  have ia: "2 ^ nat (la - 1) \<le> a" "a < 2 ^ nat la"
    using bitlen_bounds[OF apos] by (auto simp: la_def)
  have ib: "2 ^ nat (lb - 1) \<le> b" "b < 2 ^ nat lb"
    using bitlen_bounds[OF bpos] by (auto simp: lb_def)
  have ra1: "(2::rat) powi (la - 1) \<le> of_int a"
  proof -
    have "(of_int (2 ^ nat (la - 1)) :: rat) \<le> of_int a" using ia(1) by (simp only: of_int_le_iff)
    then show ?thesis using la1 by (simp add: power_int_nonneg_exp)
  qed
  have ra2: "of_int a < (2::rat) powi la"
  proof -
    have "(of_int a :: rat) < of_int (2 ^ nat la)" using ia(2) by (simp only: of_int_less_iff)
    then show ?thesis using la1 by (simp add: power_int_nonneg_exp)
  qed
  have rb1: "(2::rat) powi (lb - 1) \<le> of_int b"
  proof -
    have "(of_int (2 ^ nat (lb - 1)) :: rat) \<le> of_int b" using ib(1) by (simp only: of_int_le_iff)
    then show ?thesis using lb1 by (simp add: power_int_nonneg_exp)
  qed
  have rb2: "of_int b < (2::rat) powi lb"
  proof -
    have "(of_int b :: rat) < of_int (2 ^ nat lb)" using ib(2) by (simp only: of_int_less_iff)
    then show ?thesis using lb1 by (simp add: power_int_nonneg_exp)
  qed
  have bq: "(0::rat) < of_int b" using bpos by simp
  have aq: "(0::rat) < of_int a" using apos by simp
  have lo: "2 powi (la - lb - 1) < q"
  proof -
    have "(2::rat) powi (la - 1) * of_int b < of_int a * 2 powi lb"
      by (rule mult_le_less_imp_less[OF ra1 rb2]) (use bq in simp_all)
    then have "(2::rat) powi (la - 1) / 2 powi lb < of_int a / of_int b"
      using bq by (simp add: pos_divide_less_eq pos_less_divide_eq)
    moreover have "(2::rat) powi (la - lb - 1) = 2 powi (la - 1) / 2 powi lb"
      using power_int_diff[of "2::rat" "la - 1" lb] by (simp add: algebra_simps)
    ultimately show ?thesis by (simp add: q)
  qed
  have hi: "q < 2 powi (la - lb + 1)"
  proof -
    have "of_int a * (2::rat) powi (lb - 1) < 2 powi la * of_int b"
      by (rule mult_less_le_imp_less[OF ra2 rb1]) (use aq in simp_all)
    then have "of_int a / of_int b < (2::rat) powi la / 2 powi (lb - 1)"
      using bq by (simp add: pos_divide_less_eq pos_less_divide_eq)
    moreover have "(2::rat) powi (la - lb + 1) = 2 powi la / 2 powi (lb - 1)"
      using power_int_diff[of "2::rat" la "lb - 1"] by (simp add: algebra_simps)
    ultimately show ?thesis by (simp add: q)
  qed
  have f: "flog2 q = (if 2 powi (la - lb) \<le> q then la - lb else la - lb - 1)"
    by (simp add: flog2_def ab la_def lb_def Let_def)
  show ?thesis
  proof (cases "2 powi (la - lb) \<le> q")
    case True
    then show ?thesis using hi by (simp add: f)
  next
    case False
    then show ?thesis using lo by (simp add: f)
  qed
qed

lemma flog2_eq:
  assumes "2 powi n \<le> q" "q < 2 powi (n + 1)"
  shows "flog2 q = n"
proof -
  have qpos: "0 < q" by (rule less_le_trans[OF _ assms(1)]) simp
  note b = flog2_bounds[OF qpos]
  have "\<not> flog2 q < n"
  proof
    assume "flog2 q < n"
    then have "flog2 q + 1 \<le> n" by simp
    then have "(2::rat) powi (flog2 q + 1) \<le> 2 powi n" by (simp add: power_int_increasing)
    then show False using b assms(1) by simp
  qed
  moreover have "\<not> n < flog2 q"
  proof
    assume "n < flog2 q"
    then have "n + 1 \<le> flog2 q" by simp
    then have "(2::rat) powi (n + 1) \<le> 2 powi (flog2 q)" by (simp add: power_int_increasing)
    then show False using b assms(2) by simp
  qed
  ultimately show ?thesis by simp
qed

lemma b64_round_eval:
  assumes "2 powi n \<le> \<bar>q\<bar>" "\<bar>q\<bar> < 2 powi (n + 1)"
  shows "b64_round q =
     (let e = max (- 1074) (n - 52);
          m = round_half_even (\<bar>q\<bar> / 2 powi e);
          r = of_int m * 2 powi e
      in if 2 ^ 1024 \<le> r then (if q < 0 then NInf else PInf)
         else if m = 0 then (if q < 0 then NegZero else Fin 0)
         else Fin (if q < 0 then - r else r))"
proof -
  have "0 < \<bar>q\<bar>" by (rule less_le_trans[OF _ assms(1)]) simp
  then have "q \<noteq> 0" by simp
  then show ?thesis by (simp add: b64_round_def flog2_eq[OF assms])
qed

lemma round_half_even_frac:
  assumes "0 < b"
  shows "round_half_even (of_int a / of_int b) =
     (let f = a div b; r = a mod b
      in if 2 * r < b then f else if b < 2 * r then f + 1 else if even f then f else f + 1)"
proof -
  have bq: "(0::rat) < of_int b" using assms by simp
  have fl: "\<lfloor>(of_int a / of_int b :: rat)\<rfloor> = a div b" by (rule floor_divide_of_int_eq)
  have "(of_int a :: rat) = of_int (a div b) * of_int b + of_int (a mod b)"
    by (simp flip: of_int_mult of_int_add)
  then have d: "(of_int a / of_int b :: rat) - of_int (a div b) = of_int (a mod b) / of_int b"
    using bq by (simp add: field_simps)
  have c1: "(of_int (a mod b) / of_int b < (1::rat) / 2) = (2 * (a mod b) < b)"
  proof -
    have "(of_int (a mod b) / of_int b < (1::rat) / 2) = ((of_int (2 * (a mod b)) :: rat) < of_int b)"
      using bq by (simp add: field_simps)
    then show ?thesis by (simp only: of_int_less_iff)
  qed
  have c2: "((1::rat) / 2 < of_int (a mod b) / of_int b) = (b < 2 * (a mod b))"
  proof -
    have "((1::rat) / 2 < of_int (a mod b) / of_int b) = ((of_int b :: rat) < of_int (2 * (a mod b)))"
      using bq by (simp add: field_simps)
    then show ?thesis by (simp only: of_int_less_iff)
  qed
  show ?thesis
    unfolding round_half_even_def fl Let_def d c1 c2 ..
qed

lemma round_half_even_numeral_div [simp]:
  "round_half_even (numeral a / numeral b) =
     (let f = numeral a div numeral b; r = numeral a mod (numeral b :: int)
      in if 2 * r < numeral b then f else if numeral b < 2 * r then f + 1
         else if even f then f else f + 1)"
  using round_half_even_frac[of "numeral b" "numeral a"] by simp

lemma round_half_even_of_int [simp]: "round_half_even (of_int k) = k"
  by (simp add: round_half_even_def)

lemma round_half_even_numeral [simp]: "round_half_even (numeral k) = numeral k"
  using round_half_even_of_int[of "numeral k"] by simp

lemma round_half_even_0 [simp]: "round_half_even 0 = 0"
  using round_half_even_of_int[of 0] by simp

lemma round_half_even_1 [simp]: "round_half_even 1 = 1"
  using round_half_even_of_int[of 1] by simp

lemma round_half_even_nonneg: "0 \<le> q \<Longrightarrow> 0 \<le> round_half_even q"
  by (auto simp: round_half_even_def Let_def)


lemma f_10: "b64_round 10 = Fin 10"
  by (subst b64_round_eval[where n=3]) (simp_all add: Let_def)

lemma f_0_8: "b64_round (4 / 5) = Fin (3602879701896397 / 4503599627370496)"
  by (subst b64_round_eval[where n="-1"]) (simp_all add: Let_def)

lemma f_10_83: "b64_round (1083 / 100) = Fin (6096747995552809 / 562949953421312)"
  by (subst b64_round_eval[where n=3]) (simp_all add: Let_def)

lemma f_10_84: "b64_round (271 / 25) = Fin (3051188747543511 / 281474976710656)"
  by (subst b64_round_eval[where n=3]) (simp_all add: Let_def)

lemma f_0_03: "b64_round (3 / 100) = Fin (1080863910568919 / 36028797018963968)"
  by (subst b64_round_eval[where n="-6"]) (simp_all add: Let_def)

lemma f_sum: "fadd (Fin 10) (Fin (3602879701896397 / 4503599627370496)) = Fin (3039929748475085 / 281474976710656)"
  by (simp, subst b64_round_eval[where n=3]) (simp_all add: Let_def)

lemma f_diff_83: "fsub (Fin (3039929748475085 / 281474976710656)) (Fin (6096747995552809 / 562949953421312))
   = Fin (- (16888498602639 / 562949953421312))"
  by (simp add: fsub_def, subst b64_round_eval[where n="-6"]) (simp_all add: Let_def)

lemma str_int_eval: "str_int (numeral k) =
  (if (numeral k :: int) < 10 then [char_of (48 + (numeral k :: int))]
   else str_int (numeral k div 10) @ [char_of (48 + (numeral k :: int) mod 10)])"
  by (rule str_int.simps)

lemma digit_chars:
  "char_of (48::int) = CHR ''0''" "char_of (49::int) = CHR ''1''" "char_of (50::int) = CHR ''2''"
  "char_of (51::int) = CHR ''3''" "char_of (52::int) = CHR ''4''" "char_of (53::int) = CHR ''5''"
  "char_of (54::int) = CHR ''6''" "char_of (55::int) = CHR ''7''" "char_of (56::int) = CHR ''8''"
  "char_of (57::int) = CHR ''9''"
  by (simp_all add: char_of_def)

lemma str_int_0: "str_int 0 = ''0''" by (simp add: str_int.simps digit_chars)
lemma str_int_1: "str_int 1 = ''1''" by (simp add: str_int.simps digit_chars)

lemma fmt1: "fmt_fixed 2 (Fin 10) = ''10.00''"
  by (simp add: fmt_fixed_def Let_def str_int_eval str_int_0 str_int_1 digit_chars)

lemma fmt2: "fmt_fixed 2 (Fin (3602879701896397 / 4503599627370496)) = ''0.80''"
  by (simp add: fmt_fixed_def Let_def str_int_eval str_int_0 str_int_1 digit_chars)

lemma fmt3: "fmt_fixed 2 (Fin (6096747995552809 / 562949953421312)) = ''10.83''"
  by (simp add: fmt_fixed_def Let_def str_int_eval str_int_0 str_int_1 digit_chars)


subsection \<open>The error of one rounding\<close>

lemma round_half_even_err: "\<bar>of_int (round_half_even q) - q\<bar> \<le> 1 / 2"
proof -
  define f where "f = \<lfloor>q\<rfloor>"
  define d where "d = q - of_int f"
  have d: "0 \<le> d" "d < 1" unfolding d_def f_def by linarith+
  have q: "q = of_int f + d" by (simp add: d_def)
  have r: "round_half_even q =
      (if d < 1 / 2 then f else if 1 / 2 < d then f + 1 else if even f then f else f + 1)"
    by (simp add: round_half_even_def Let_def f_def d_def)
  show ?thesis
    unfolding r using d by (auto simp: q)
qed

lemma b64_round_err:
  assumes "\<bar>q\<bar> \<le> 2 ^ 100"
  shows "finite_f (b64_round q) \<and> \<bar>rat_of (b64_round q) - q\<bar> \<le> \<bar>q\<bar> / 2 ^ 53 + 1 / 2 ^ 100"
proof (cases "q = 0")
  case True
  then show ?thesis by (simp add: b64_round_def finite_f_def)
next
  case False
  then have qpos: "0 < \<bar>q\<bar>" by simp
  define e where "e = max (- 1074) (flog2 \<bar>q\<bar> - 52)"
  define m where "m = round_half_even (\<bar>q\<bar> / 2 powi e)"
  define r :: rat where "r = of_int m * 2 powi e"
  have pe: "(0::rat) < 2 powi e" by simp
  have "\<bar>of_int m - \<bar>q\<bar> / 2 powi e\<bar> \<le> 1 / 2"
    unfolding m_def by (rule round_half_even_err)
  then have "\<bar>of_int m - \<bar>q\<bar> / 2 powi e\<bar> * 2 powi e \<le> 1 / 2 * 2 powi e"
    using pe by (intro mult_right_mono) simp_all
  moreover have "\<bar>of_int m - \<bar>q\<bar> / 2 powi e\<bar> * 2 powi e = \<bar>r - \<bar>q\<bar>\<bar>"
  proof -
    have "\<bar>of_int m - \<bar>q\<bar> / 2 powi e\<bar> * 2 powi e = \<bar>(of_int m - \<bar>q\<bar> / 2 powi e) * 2 powi e\<bar>"
      by (simp add: abs_mult)
    also have "(of_int m - \<bar>q\<bar> / 2 powi e) * 2 powi e = r - \<bar>q\<bar>"
      by (simp add: r_def algebra_simps)
    finally show ?thesis .
  qed
  ultimately have err: "\<bar>r - \<bar>q\<bar>\<bar> \<le> 2 powi e / 2" by simp
  have half: "(2::rat) powi e / 2 \<le> \<bar>q\<bar> / 2 ^ 53 + 1 / 2 ^ 100"
  proof (cases "- 1074 \<le> flog2 \<bar>q\<bar> - 52")
    case True
    then have "e = flog2 \<bar>q\<bar> - 52" by (simp add: e_def)
    then have "(2::rat) powi e = 2 powi (flog2 \<bar>q\<bar>) / 2 ^ 52"
      by (simp add: power_int_diff)
    moreover have "2 powi (flog2 \<bar>q\<bar>) \<le> \<bar>q\<bar>" using flog2_bounds[OF qpos] by simp
    ultimately have "(2::rat) powi e / 2 \<le> \<bar>q\<bar> / 2 ^ 53"
      by (simp add: divide_right_mono)
    then show ?thesis by simp
  next
    case False
    then have "e = - 1074" by (simp add: e_def)
    then have "(2::rat) powi e \<le> 2 powi (- 99)"
      by (simp add: power_int_increasing)
    also have "(2::rat) powi (- 99) = 2 / 2 ^ 100" by (simp add: power_int_minus)
    finally have "(2::rat) powi e / 2 \<le> 1 / 2 ^ 100" by simp
    moreover have "0 \<le> \<bar>q\<bar> / 2 ^ 53" by simp
    ultimately show ?thesis by linarith
  qed
  have rnn: "0 \<le> r" unfolding r_def m_def
    by (intro mult_nonneg_nonneg) (simp_all add: round_half_even_nonneg)
  have rsmall: "r < 2 ^ 1024"
  proof -
    have "r \<le> \<bar>q\<bar> + (\<bar>q\<bar> / 2 ^ 53 + 1 / 2 ^ 100)" using err half by linarith
    also have "\<dots> \<le> 2 ^ 100 + (2 ^ 100 / 2 ^ 53 + 1 / 2 ^ 100)"
      using assms by (intro add_mono divide_right_mono) simp_all
    also have "\<dots> < 2 ^ 1024" by simp
    finally show ?thesis .
  qed
  have b0: "b64_round q =
      (if 2 ^ 1024 \<le> r then (if q < 0 then NInf else PInf)
       else if m = 0 then (if q < 0 then NegZero else Fin 0)
       else Fin (if q < 0 then - r else r))"
    using False by (simp add: b64_round_def Let_def r_def m_def e_def)
  have b: "b64_round q =
      (if m = 0 then (if q < 0 then NegZero else Fin 0) else Fin (if q < 0 then - r else r))"
    using rsmall by (simp add: b0)
  have r0: "m = 0 \<Longrightarrow> r = 0" by (simp add: r_def)
  have fin: "finite_f (b64_round q)" by (simp add: b finite_f_def)
  have val: "rat_of (b64_round q) = (if q < 0 then - r else r)"
    using r0 by (auto simp: b)
  have "\<bar>rat_of (b64_round q) - q\<bar> = \<bar>r - \<bar>q\<bar>\<bar>"
    unfolding val by (cases "q < 0") auto
  then show ?thesis using fin err half by linarith
qed

lemma finite_f_cases:
  assumes "finite_f x"
  obtains "x = Fin (rat_of x)" | "x = NegZero" "rat_of x = 0"
  using assms by (cases x) (simp_all add: finite_f_def)

lemma fadd_err:
  assumes "finite_f x" "finite_f y" "\<bar>rat_of x + rat_of y\<bar> \<le> 2 ^ 100"
  shows "finite_f (fadd x y) \<and>
         \<bar>rat_of (fadd x y) - (rat_of x + rat_of y)\<bar> \<le> \<bar>rat_of x + rat_of y\<bar> / 2 ^ 53 + 1 / 2 ^ 100"
proof -
  have nn: "0 \<le> \<bar>rat_of x + rat_of y\<bar> / 2 ^ 53 + 1 / 2 ^ 100" by simp
  show ?thesis
  proof (rule finite_f_cases[OF assms(1)])
    assume x: "x = Fin (rat_of x)"
    show ?thesis
    proof (rule finite_f_cases[OF assms(2)])
      assume y: "y = Fin (rat_of y)"
      have "fadd x y = b64_round (rat_of x + rat_of y)"
        by (subst x, subst y) simp
      then show ?thesis using b64_round_err[OF assms(3)] by simp
    next
      assume y: "y = NegZero" "rat_of y = 0"
      have "fadd x y = x" by (subst x, subst y(1), simp, rule x[symmetric])
      then show ?thesis using assms(1) y nn by simp
    qed
  next
    assume x: "x = NegZero" "rat_of x = 0"
    have "fadd x y = y" using assms(2) x(1) by (cases y) (simp_all add: finite_f_def)
    then show ?thesis using assms(2) x nn by simp
  qed
qed

lemma fneg_finite: "finite_f x \<Longrightarrow> finite_f (fneg x) \<and> rat_of (fneg x) = - rat_of x"
  by (cases x) (simp_all add: finite_f_def)

lemma fabs_finite: "finite_f x \<Longrightarrow> fabs x = Fin \<bar>rat_of x\<bar>"
  by (cases x) (simp_all add: finite_f_def)

lemma math_rule_tolerance:
  assumes amounts: "subtotal d = Fin s" "tax d = Fin t" "total d = Fin tot"
    and bounds: "\<bar>s\<bar> \<le> 10 ^ 6" "\<bar>t\<bar> \<le> 10 ^ 6" "\<bar>tot\<bar> \<le> 10 ^ 6"
  shows "(\<bar>s + t - tot\<bar> \<le> 3 / 100 - 1 / 10 ^ 9 \<longrightarrow>
            fle (fabs (fsub (fadd (subtotal d) (tax d)) (total d))) (b64_round (3 / 100)))
       \<and> (3 / 100 + 1 / 10 ^ 9 \<le> \<bar>s + t - tot\<bar> \<longrightarrow>
            \<not> fle (fabs (fsub (fadd (subtotal d) (tax d)) (total d))) (b64_round (3 / 100)))"
proof -
  define S where "S = fadd (Fin s) (Fin t)"
  define D where "D = fadd S (fneg (Fin tot))"
  define a where "a = rat_of S"
  define X where "X = a - tot"
  define x' where "x' = rat_of D"
  have fs: "finite_f (Fin s)" "finite_f (Fin t)" "finite_f (Fin tot)" by (simp_all add: finite_f_def)
  have bounds': "\<bar>s\<bar> \<le> 1000000" "\<bar>t\<bar> \<le> 1000000" "\<bar>tot\<bar> \<le> 1000000"
    using bounds by simp_all
  have st: "\<bar>s + t\<bar> \<le> 2000000" using bounds' by linarith
  have "\<bar>rat_of (Fin s) + rat_of (Fin t)\<bar> \<le> 2 ^ 100" using st by simp
  from fadd_err[OF fs(1) fs(2) this]
  have S: "finite_f S" "\<bar>a - (s + t)\<bar> \<le> \<bar>s + t\<bar> / 2 ^ 53 + 1 / 2 ^ 100"
    by (simp_all add: S_def a_def)
  have e1: "\<bar>a - (s + t)\<bar> \<le> 1 / 4000000000"
  proof -
    have "\<bar>s + t\<bar> / 2 ^ 53 + 1 / 2 ^ 100 \<le> 2000000 / 2 ^ 53 + 1 / 2 ^ (100::nat)"
      using st by (intro add_mono divide_right_mono) simp_all
    also have "\<dots> \<le> (1 / 4000000000 :: rat)" by simp
    finally show ?thesis using S(2) by linarith
  qed
  have ng: "finite_f (fneg (Fin tot))" "rat_of (fneg (Fin tot)) = - tot"
    using fneg_finite[OF fs(3)] by simp_all
  have Xb: "\<bar>X\<bar> \<le> 4000000" using e1 st bounds'(3) unfolding X_def by linarith
  have sumX: "rat_of S + rat_of (fneg (Fin tot)) = X"
    unfolding ng(2) X_def a_def by simp
  have pre: "\<bar>rat_of S + rat_of (fneg (Fin tot))\<bar> \<le> 2 ^ 100"
    unfolding sumX by (rule order_trans[OF Xb]) simp
  have Dd: "finite_f D" "\<bar>x' - X\<bar> \<le> \<bar>X\<bar> / 2 ^ 53 + 1 / 2 ^ 100"
    using fadd_err[OF S(1) ng(1) pre] unfolding sumX D_def x'_def by blast+
  have e2: "\<bar>x' - X\<bar> \<le> 1 / 2000000000"
  proof -
    have "\<bar>X\<bar> / 2 ^ 53 + 1 / 2 ^ 100 \<le> 4000000 / 2 ^ 53 + 1 / 2 ^ (100::nat)"
      using Xb by (intro add_mono divide_right_mono) simp_all
    also have "\<dots> \<le> (1 / 2000000000 :: rat)" by simp
    finally show ?thesis using Dd(2) by linarith
  qed
  have e3: "\<bar>X\<bar> \<le> 1 \<Longrightarrow> \<bar>x' - X\<bar> \<le> 1 / 1000000000000000"
  proof -
    assume "\<bar>X\<bar> \<le> 1"
    then have "\<bar>X\<bar> / 2 ^ 53 + 1 / 2 ^ 100 \<le> 1 / 2 ^ 53 + 1 / 2 ^ (100::nat)"
      by (intro add_mono divide_right_mono) simp_all
    also have "\<dots> \<le> (1 / 1000000000000000 :: rat)" by simp
    finally show ?thesis using Dd(2) by linarith
  qed
  have expr: "fsub (fadd (subtotal d) (tax d)) (total d) = D"
    by (simp only: amounts fsub_def S_def D_def)
  have test: "fle (fabs (fsub (fadd (subtotal d) (tax d)) (total d))) (b64_round (3 / 100))
        = (\<bar>x'\<bar> \<le> 1080863910568919 / 36028797018963968)"
    unfolding expr fabs_finite[OF Dd(1)] f_0_03 x'_def by simp
  have XE: "X - (s + t - tot) = a - (s + t)" by (simp add: X_def)
  show ?thesis
  proof (intro conjI impI)
    assume h: "\<bar>s + t - tot\<bar> \<le> 3 / 100 - 1 / 10 ^ 9"
    have h': "\<bar>s + t - tot\<bar> \<le> 3 / 100 - 1 / 1000000000" using h by simp
    have "\<bar>X\<bar> \<le> 3 / 100 - 1 / 1000000000 + 1 / 4000000000" using h' e1 XE by linarith
    moreover from this have "\<bar>X\<bar> \<le> 1" by simp
    ultimately have "\<bar>x'\<bar> \<le> 3 / 100 - 1 / 1000000000 + 1 / 4000000000 + 1 / 1000000000000000"
      using e3 by linarith
    then have "\<bar>x'\<bar> \<le> 1080863910568919 / 36028797018963968" by simp
    then show "fle (fabs (fsub (fadd (subtotal d) (tax d)) (total d))) (b64_round (3 / 100))"
      unfolding test .
  next
    assume h: "3 / 100 + 1 / 10 ^ 9 \<le> \<bar>s + t - tot\<bar>"
    have h': "3 / 100 + 1 / 1000000000 \<le> \<bar>s + t - tot\<bar>" using h by simp
    have "3 / 100 + 1 / 1000000000 - 1 / 4000000000 \<le> \<bar>X\<bar>" using h' e1 XE by linarith
    then have "3 / 100 + 1 / 1000000000 - 1 / 4000000000 - 1 / 2000000000 \<le> \<bar>x'\<bar>"
      using e2 by linarith
    then have "\<not> \<bar>x'\<bar> \<le> 1080863910568919 / 36028797018963968" by simp
    then show "\<not> fle (fabs (fsub (fadd (subtotal d) (tax d)) (total d))) (b64_round (3 / 100))"
      unfolding test .
  qed
qed

section \<open>The example receipt\<close>

lemma digit_vals:
  "digit_val CHR ''0'' = 0" "digit_val CHR ''1'' = 1" "digit_val CHR ''2'' = 2"
  "digit_val CHR ''3'' = 3" "digit_val CHR ''4'' = 4" "digit_val CHR ''5'' = 5"
  "digit_val CHR ''6'' = 6" "digit_val CHR ''7'' = 7" "digit_val CHR ''8'' = 8"
  "digit_val CHR ''9'' = 9"
  by (simp_all add: digit_val_def)

lemma py_float_8_64: "py_float (remove_commas ''8.64'') = Inr (Fin (607985949695017 / 70368744177664))"
proof -
  have "py_float (remove_commas ''8.64'') = Inr (b64_round (216 / 25))"
    by (simp add: py_float_def remove_commas_def py_isdigit_def dec_val_def digit_vals)
  also have "b64_round (216 / 25) = Fin (607985949695017 / 70368744177664)"
    by (subst b64_round_eval[where n=3]) (simp_all add: Let_def)
  finally show ?thesis .
qed

lemma py_float_0_64: "py_float (remove_commas ''0.64'') = Inr (Fin (5764607523034235 / 9007199254740992))"
proof -
  have "py_float (remove_commas ''0.64'') = Inr (b64_round (16 / 25))"
    by (simp add: py_float_def remove_commas_def py_isdigit_def dec_val_def digit_vals)
  also have "b64_round (16 / 25) = Fin (5764607523034235 / 9007199254740992)"
    by (subst b64_round_eval[where n="-1"]) (simp_all add: Let_def)
  finally show ?thesis .
qed

lemma py_float_8_00: "py_float (remove_commas ''8.00'') = Inr (Fin 8)"
proof -
  have "py_float (remove_commas ''8.00'') = Inr (b64_round 8)"
    by (simp add: py_float_def remove_commas_def py_isdigit_def dec_val_def digit_vals)
  also have "b64_round 8 = Fin 8"
    by (subst b64_round_eval[where n=3]) (simp_all add: Let_def)
  finally show ?thesis .
qed

lemma ex_total_matches: "re_findall True total_pattern example_text = [''8.64'']"
  by code_simp

lemma ex_tax_matches: "re_findall True tax_pattern example_text = [''0.64'']"
  by code_simp

lemma ex_date_match:
  "re_search False date_pattern example_text = Some \<lparr>m_start = 10, m_end = 20, m_group = ''01/15/2024''\<rparr>"
  by code_simp

lemma ex_lines:
  "filter (\<lambda>l. l \<noteq> []) (map strip (split_lines example_text)) =
   [''Acme Mart'', ''01/15/2024'', ''2 x Coffee   8.00'', ''Tax: 0.64'', ''Total: 8.64'']"
  by code_simp

lemma ex_date_text: "take 10 (drop 10 example_text) = ''01/15/2024''"
  by code_simp

lemma parse_example:
  "parse_receipt_data now example_text =
     \<lparr>merchant = ''Acme Mart'', date = ''01/15/2024'',
      total = Fin (607985949695017 / 70368744177664),
      tax = Fin (5764607523034235 / 9007199254740992)\<rparr>"
  by (simp add: parse_receipt_data_def extract_total_def extract_tax_def Let_def
        ex_total_matches ex_tax_matches ex_date_match ex_lines ex_date_text
        py_float_8_64 py_float_0_64 py_max_def)
section \<open>The rule \<open>math\<close>\<close>

lemma flt_zero_not_zero: "flt (Fin 0) y \<Longrightarrow> \<not> is_zero y"
  by (cases y) (auto simp: flt_def)

lemma fdiv_total: "\<not> is_zero y \<Longrightarrow> \<exists>q. fdiv x y = Inr q"
  by (simp add: fdiv_def)

lemma validate_receipt_math:
  "\<exists>results. validate_receipt d is_dup = Inr results \<and>
     results ''math'' = Some
       (if fle (fabs (fsub (fadd (subtotal d) (tax d)) (total d))) (b64_round (3 / 100))
        then (True, ''Pass: '' @ fmt_fixed 2 (subtotal d) @ '' + '' @ fmt_fixed 2 (tax d)
                      @ '' = '' @ fmt_fixed 2 (total d))
        else (False, ''Fail: '' @ fmt_fixed 2 (subtotal d) @ '' + '' @ fmt_fixed 2 (tax d)
                       @ '' != '' @ fmt_fixed 2 (total d)))"
proof (cases "flt (Fin 0) (subtotal d)")
  case True
  then obtain q where q: "fdiv (tax d) (subtotal d) = Inr q"
    using fdiv_total[OF flt_zero_not_zero] by blast
  show ?thesis
    using True q by (simp add: validate_receipt_def Let_def)
next
  case False
  then show ?thesis
    by (simp add: validate_receipt_def Let_def)
qed

lemma f_10_77: "b64_round (1077 / 100) = Fin (3031485499173765 / 281474976710656)"
  by (subst b64_round_eval[where n=3]) (simp_all add: Let_def)

lemma f_diff_84: "fsub (Fin (3039929748475085 / 281474976710656)) (Fin (3051188747543511 / 281474976710656))
   = Fin (- (5629499534213 / 140737488355328))"
  by (simp add: fsub_def, subst b64_round_eval[where n="-5"]) (simp_all add: Let_def)

lemma f_diff_77: "fsub (Fin (3039929748475085 / 281474976710656)) (Fin (3031485499173765 / 281474976710656))
   = Fin (1055531162665 / 35184372088832)"
  by (simp add: fsub_def, subst b64_round_eval[where n="-6"]) (simp_all add: Let_def)

lemma fmt_10_84: "fmt_fixed 2 (Fin (3051188747543511 / 281474976710656)) = ''10.84''"
  by (simp add: fmt_fixed_def Let_def str_int_eval str_int_0 str_int_1 digit_chars)

lemma fmt_10_77: "fmt_fixed 2 (Fin (3031485499173765 / 281474976710656)) = ''10.77''"
  by (simp add: fmt_fixed_def Let_def str_int_eval str_int_0 str_int_1 digit_chars)

lemma math_10_83:
  "fle (fabs (fsub (fadd (b64_round 10) (b64_round (4 / 5))) (b64_round (1083 / 100))))
       (b64_round (3 / 100))"
  by (simp only: f_10 f_0_8 f_10_83 f_0_03 f_sum f_diff_83) simp

lemma math_10_84:
  "\<not> fle (fabs (fsub (fadd (b64_round 10) (b64_round (4 / 5))) (b64_round (271 / 25))))
         (b64_round (3 / 100))"
  by (simp only: f_10 f_0_8 f_10_84 f_0_03 f_sum f_diff_84) simp

lemma math_10_77:
  "\<not> fle (fabs (fsub (fadd (b64_round 10) (b64_round (4 / 5))) (b64_round (1077 / 100))))
         (b64_round (3 / 100))"
  by (simp only: f_10 f_0_8 f_10_77 f_0_03 f_sum f_diff_77) simp

lemma fmt_10_00: "fmt_fixed 2 (b64_round 10) = ''10.00''"
  by (simp only: f_10 fmt1)

lemma fmt_0_80: "fmt_fixed 2 (b64_round (4 / 5)) = ''0.80''"
  by (simp only: f_0_8 fmt2)

lemma fmt_10_83: "fmt_fixed 2 (b64_round (1083 / 100)) = ''10.83''"
  by (simp only: f_10_83 fmt3)

lemma fmt_10_84': "fmt_fixed 2 (b64_round (271 / 25)) = ''10.84''"
  by (simp only: f_10_84 fmt_10_84)

lemma fmt_10_77': "fmt_fixed 2 (b64_round (1077 / 100)) = ''10.77''"
  by (simp only: f_10_77 fmt_10_77)

lemmas boundary_facts = math_10_83 math_10_84 math_10_77 fmt_10_00 fmt_0_80 fmt_10_83 fmt_10_84' fmt_10_77'

lemma boundary_sel:
  "subtotal (boundary_receipt t) = b64_round 10" "tax (boundary_receipt t) = b64_round (4 / 5)"
  "total (boundary_receipt t) = b64_round t"
  by (simp_all add: boundary_receipt_def)

lemma math_rule_at_10_83:
  "\<exists>results. validate_receipt (boundary_receipt (1083 / 100)) False = Inr results \<and>
         results ''math'' = Some (True, ''Pass: 10.00 + 0.80 = 10.83'')"
  using validate_receipt_math[of "boundary_receipt (1083 / 100)" False]
  unfolding boundary_sel by (simp only: boundary_facts if_True) simp

lemma math_rule_at_10_84:
  "\<exists>results. validate_receipt (boundary_receipt (271 / 25)) False = Inr results \<and>
         results ''math'' = Some (False, ''Fail: 10.00 + 0.80 != 10.84'')"
  using validate_receipt_math[of "boundary_receipt (271 / 25)" False]
  unfolding boundary_sel by (simp only: boundary_facts if_False) simp

lemma math_rule_at_10_77:
  "\<exists>results. validate_receipt (boundary_receipt (1077 / 100)) False = Inr results \<and>
         results ''math'' = Some (False, ''Fail: 10.00 + 0.80 != 10.77'')"
  using validate_receipt_math[of "boundary_receipt (1077 / 100)" False]
  unfolding boundary_sel by (simp only: boundary_facts if_False) simp

lemma math_verdict_eq:
  "math_verdict d is_dup = Some
     (if fle (fabs (fsub (fadd (subtotal d) (tax d)) (total d))) (b64_round (3 / 100))
      then (True, ''Pass: '' @ fmt_fixed 2 (subtotal d) @ '' + '' @ fmt_fixed 2 (tax d)
                    @ '' = '' @ fmt_fixed 2 (total d))
      else (False, ''Fail: '' @ fmt_fixed 2 (subtotal d) @ '' + '' @ fmt_fixed 2 (tax d)
                     @ '' != '' @ fmt_fixed 2 (total d)))"
proof -
  obtain results where "validate_receipt d is_dup = Inr results"
    and "results ''math'' = Some
     (if fle (fabs (fsub (fadd (subtotal d) (tax d)) (total d))) (b64_round (3 / 100))
      then (True, ''Pass: '' @ fmt_fixed 2 (subtotal d) @ '' + '' @ fmt_fixed 2 (tax d)
                    @ '' = '' @ fmt_fixed 2 (total d))
      else (False, ''Fail: '' @ fmt_fixed 2 (subtotal d) @ '' + '' @ fmt_fixed 2 (tax d)
                     @ '' != '' @ fmt_fixed 2 (total d)))"
    using validate_receipt_math[of d is_dup] by blast
  then show ?thesis
    by (simp add: math_verdict_def)
qed

lemma math_verdict_10_83:
  "math_verdict (boundary_receipt (1083 / 100)) False = Some (True, ''Pass: 10.00 + 0.80 = 10.83'')"
proof -
  obtain results where "validate_receipt (boundary_receipt (1083 / 100)) False = Inr results"
    and "results ''math'' = Some (True, ''Pass: 10.00 + 0.80 = 10.83'')"
    using math_rule_at_10_83 by blast
  then show ?thesis
    by (simp add: math_verdict_def)
qed

lemma math_verdict_10_84:
  "math_verdict (boundary_receipt (271 / 25)) False = Some (False, ''Fail: 10.00 + 0.80 != 10.84'')"
proof -
  obtain results where "validate_receipt (boundary_receipt (271 / 25)) False = Inr results"
    and "results ''math'' = Some (False, ''Fail: 10.00 + 0.80 != 10.84'')"
    using math_rule_at_10_84 by blast
  then show ?thesis
    by (simp add: math_verdict_def)
qed

lemma math_verdict_10_77:
  "math_verdict (boundary_receipt (1077 / 100)) False = Some (False, ''Fail: 10.00 + 0.80 != 10.77'')"
proof -
  obtain results where "validate_receipt (boundary_receipt (1077 / 100)) False = Inr results"
    and "results ''math'' = Some (False, ''Fail: 10.00 + 0.80 != 10.77'')"
    using math_rule_at_10_77 by blast
  then show ?thesis
    by (simp add: math_verdict_def)
qed

text \<open>
  The three binary64 amounts of the receipt 10.00, 0.80, 10.83 taken as exact numbers differ by
  more than 0.03: the double nearest 0.80 and the double nearest 10.83 both lie above the
  decimal they stand for, the second by more.
\<close>

lemma exact_amounts_10_83:
  "\<not> math_rule_spec (rat_of (subtotal (boundary_receipt (1083 / 100))))
        (rat_of (tax (boundary_receipt (1083 / 100)))) (rat_of (total (boundary_receipt (1083 / 100))))"
  unfolding boundary_sel by (simp only: f_10 f_0_8 f_10_83) (simp add: math_rule_spec_def)

lemma f_10_8: "b64_round (54 / 5) = Fin (3039929748475085 / 281474976710656)"
  by (subst b64_round_eval[where n=3]) (simp_all add: Let_def)

lemma fmt_10_80: "fmt_fixed 2 (Fin (3039929748475085 / 281474976710656)) = ''10.80''"
  by (simp add: fmt_fixed_def Let_def str_int_eval str_int_0 str_int_1 digit_chars)

text \<open>
  Claim C1 as stated fails on the code. The claim says that the rule \<open>math\<close> passes if and
  only if \<open>|subtotal + tax - total| \<le> 0.03\<close>, the boundary included. For the receipt with
  subtotal 10.00, tax 0.80 and total 10.77 the amounts differ by exactly 0.03, yet
  \<open>validate_receipt\<close> answers \<^verbatim>\<open>Fail: 10.00 + 0.80 != 10.77\<close>: in binary64 the sum is the double
  just above 10.8, the total the double just below 10.77, and their rounded difference is
  above the double nearest 0.03. Reading the amounts instead as the exact values of the
  doubles does not save the claim: for the total 10.83 those differ by more than 0.03, and
  the rule passes.
\<close>

theorem math_rule_boundary_not_inclusive:
  "math_rule_spec 10 (4 / 5) (1077 / 100)
   \<and> math_verdict (boundary_receipt (1077 / 100)) False = Some (False, ''Fail: 10.00 + 0.80 != 10.77'')
   \<and> \<not> math_rule_spec (rat_of (subtotal (boundary_receipt (1083 / 100))))
          (rat_of (tax (boundary_receipt (1083 / 100)))) (rat_of (total (boundary_receipt (1083 / 100))))
   \<and> math_verdict (boundary_receipt (1083 / 100)) False = Some (True, ''Pass: 10.00 + 0.80 = 10.83'')"
  using math_verdict_10_77 exact_amounts_10_83 math_verdict_10_83
  by (simp add: math_rule_spec_def)

text \<open>
  Claim C1, amended. For every receipt record \<open>validate_receipt\<close> returns, and the rule
  \<open>math\<close> passes exactly when the test \<^verbatim>\<open>abs((subtotal + tax) - total) <= 0.03\<close> holds in
  binary64 arithmetic: the sum and the difference each rounded to the nearest double, the
  bound the double nearest 0.03. Hence, for finite amounts of magnitude at most \<open>10\<^sup>6\<close>, the
  rule passes whenever \<open>|subtotal + tax - total| \<le> 0.03 - 10\<^sup>-\<^sup>9\<close> and fails whenever
  \<open>|subtotal + tax - total| \<ge> 0.03 + 10\<^sup>-\<^sup>9\<close> in exact arithmetic; between the two bounds the
  roundings decide. The message is \<^verbatim>\<open>Pass: s + t = total\<close> or \<^verbatim>\<open>Fail: s + t != total\<close> with
  the three amounts in two decimals. At subtotal 10.00 and tax 0.80 the total 10.83 passes
  and the total 10.84 fails.
\<close>

theorem math_rule_binary64:
  "math_verdict d is_dup = Some
     (if fle (fabs (fsub (fadd (subtotal d) (tax d)) (total d))) (b64_round (3 / 100))
      then (True, ''Pass: '' @ fmt_fixed 2 (subtotal d) @ '' + '' @ fmt_fixed 2 (tax d)
                    @ '' = '' @ fmt_fixed 2 (total d))
      else (False, ''Fail: '' @ fmt_fixed 2 (subtotal d) @ '' + '' @ fmt_fixed 2 (tax d)
                     @ '' != '' @ fmt_fixed 2 (total d)))
   \<and> (subtotal d = Fin s \<and> tax d = Fin t \<and> total d = Fin tot
        \<and> \<bar>s\<bar> \<le> 10 ^ 6 \<and> \<bar>t\<bar> \<le> 10 ^ 6 \<and> \<bar>tot\<bar> \<le> 10 ^ 6 \<longrightarrow>
        (\<bar>s + t - tot\<bar> \<le> 3 / 100 - 1 / 10 ^ 9 \<longrightarrow>
           math_verdict d is_dup =
             Some (True, ''Pass: '' @ fmt_fixed 2 (subtotal d) @ '' + '' @ fmt_fixed 2 (tax d)
                           @ '' = '' @ fmt_fixed 2 (total d)))
      \<and> (3 / 100 + 1 / 10 ^ 9 \<le> \<bar>s + t - tot\<bar> \<longrightarrow>
           math_verdict d is_dup =
             Some (False, ''Fail: '' @ fmt_fixed 2 (subtotal d) @ '' + '' @ fmt_fixed 2 (tax d)
                            @ '' != '' @ fmt_fixed 2 (total d))))
   \<and> math_verdict (boundary_receipt (1083 / 100)) False = Some (True, ''Pass: 10.00 + 0.80 = 10.83'')
   \<and> math_verdict (boundary_receipt (271 / 25)) False = Some (False, ''Fail: 10.00 + 0.80 != 10.84'')"
proof (intro conjI impI)
  show "math_verdict d is_dup = Some
     (if fle (fabs (fsub (fadd (subtotal d) (tax d)) (total d))) (b64_round (3 / 100))
      then (True, ''Pass: '' @ fmt_fixed 2 (subtotal d) @ '' + '' @ fmt_fixed 2 (tax d)
                    @ '' = '' @ fmt_fixed 2 (total d))
      else (False, ''Fail: '' @ fmt_fixed 2 (subtotal d) @ '' + '' @ fmt_fixed 2 (tax d)
                     @ '' != '' @ fmt_fixed 2 (total d)))"
    by (rule math_verdict_eq)
next
  assume a: "subtotal d = Fin s \<and> tax d = Fin t \<and> total d = Fin tot
        \<and> \<bar>s\<bar> \<le> 10 ^ 6 \<and> \<bar>t\<bar> \<le> 10 ^ 6 \<and> \<bar>tot\<bar> \<le> 10 ^ 6"
    and h: "\<bar>s + t - tot\<bar> \<le> 3 / 100 - 1 / 10 ^ 9"
  have "fle (fabs (fsub (fadd (subtotal d) (tax d)) (total d))) (b64_round (3 / 100))"
    using math_rule_tolerance[of d s t tot] a h by blast
  then show "math_verdict d is_dup =
             Some (True, ''Pass: '' @ fmt_fixed 2 (subtotal d) @ '' + '' @ fmt_fixed 2 (tax d)
                           @ '' = '' @ fmt_fixed 2 (total d))"
    by (simp only: math_verdict_eq if_True)
next
  assume a: "subtotal d = Fin s \<and> tax d = Fin t \<and> total d = Fin tot
        \<and> \<bar>s\<bar> \<le> 10 ^ 6 \<and> \<bar>t\<bar> \<le> 10 ^ 6 \<and> \<bar>tot\<bar> \<le> 10 ^ 6"
    and h: "3 / 100 + 1 / 10 ^ 9 \<le> \<bar>s + t - tot\<bar>"
  have "\<not> fle (fabs (fsub (fadd (subtotal d) (tax d)) (total d))) (b64_round (3 / 100))"
    using math_rule_tolerance[of d s t tot] a h by blast
  then show "math_verdict d is_dup =
             Some (False, ''Fail: '' @ fmt_fixed 2 (subtotal d) @ '' + '' @ fmt_fixed 2 (tax d)
                            @ '' != '' @ fmt_fixed 2 (total d))"
    by (simp only: math_verdict_eq if_False)
next
  show "math_verdict (boundary_receipt (1083 / 100)) False = Some (True, ''Pass: 10.00 + 0.80 = 10.83'')"
    by (rule math_verdict_10_83)
next
  show "math_verdict (boundary_receipt (271 / 25)) False = Some (False, ''Fail: 10.00 + 0.80 != 10.84'')"
    by (rule math_verdict_10_84)
qed

text \<open>
  The amended claim at two receipts: subtotal 10.00 and tax 0.80 with the total 10.80, within the
  tolerance, and with the total 10.84, beyond it.
\<close>

theorem math_rule_binary64_witness:
  "subtotal (boundary_receipt (54 / 5)) = Fin 10
   \<and> tax (boundary_receipt (54 / 5)) = Fin (3602879701896397 / 4503599627370496)
   \<and> total (boundary_receipt (54 / 5)) = Fin (3039929748475085 / 281474976710656)
   \<and> \<bar>10 + 3602879701896397 / 4503599627370496 - 3039929748475085 / 281474976710656 :: rat\<bar>
        \<le> 3 / 100 - 1 / 10 ^ 9
   \<and> math_verdict (boundary_receipt (54 / 5)) True = Some (True, ''Pass: 10.00 + 0.80 = 10.80'')
   \<and> total (boundary_receipt (271 / 25)) = Fin (3051188747543511 / 281474976710656)
   \<and> 3 / 100 + 1 / 10 ^ 9
        \<le> \<bar>10 + 3602879701896397 / 4503599627370496 - 3051188747543511 / 281474976710656 :: rat\<bar>
   \<and> math_verdict (boundary_receipt (271 / 25)) True = Some (False, ''Fail: 10.00 + 0.80 != 10.84'')"
  using math_rule_binary64[of "boundary_receipt (54 / 5)" True 10 "3602879701896397 / 4503599627370496"
          "3039929748475085 / 281474976710656", THEN conjunct2, THEN conjunct1]
        math_rule_binary64[of "boundary_receipt (271 / 25)" True 10 "3602879701896397 / 4503599627370496"
          "3051188747543511 / 281474976710656", THEN conjunct2, THEN conjunct1]
  by (simp add: boundary_sel f_10 f_0_8 f_10_8 f_10_84 fmt1 fmt2 fmt_10_80 fmt_10_84)

section \<open>Reconciliation\<close>























section \<open>Duplicate detection\<close>

lemma check_m2_filter:
  "check_if_receipt_exists_m2 rows m d t inum =
     (0 < length (filter (duplicate_of m d t inum) rows), length (filter (duplicate_of m d t inum) rows))"
proof -
  have "(\<lambda>r. list_all (holds r)
            (case inum of None \<Rightarrow> [Merchant_Eq m, Date_Eq d, Total_Amount_Eq t]
             | Some num \<Rightarrow> if num \<noteq> [] \<and> num \<noteq> ''Unknown''
                 then [Merchant_Eq m, Date_Eq d, Total_Amount_Eq t] @ [Invoice_Number_Eq num]
                 else [Merchant_Eq m, Date_Eq d, Total_Amount_Eq t]))
        = duplicate_of m d t inum"
    by (rule ext) (auto simp: duplicate_of_def invoice_participates_def split: option.splits)
  then show ?thesis
    by (simp add: check_if_receipt_exists_m2_def Let_def)
qed





text \<open>
  Claim C9. In the pair returned by the duplicate check of \<open>Milestone 2/main.py\<close> the
  first component is true exactly when the second is positive, and the second is the
  number of stored receipts that satisfy the equality predicate.
\<close>

theorem exists_iff_count_positive:
  "fst (check_if_receipt_exists_m2 rows m d t inum) = (0 < snd (check_if_receipt_exists_m2 rows m d t inum))
   \<and> snd (check_if_receipt_exists_m2 rows m d t inum) = length (filter (duplicate_of m d t inum) rows)"
  by (simp add: check_m2_filter)

section \<open>The upload handler\<close>

lemma process_upload_duplicate:
  assumes "check_if_receipt_exists db (merchant (parse_receipt_data now raw_text))
             (date (parse_receipt_data now raw_text)) (total (parse_receipt_data now raw_text))"
  shows "process_upload db now upload_time filename raw_text =
           (db, Duplicate_Detected (''Duplicate Receipt Detected from ''
                  @ merchant (parse_receipt_data now raw_text) @ ''!''))"
  using assms by (simp add: process_upload_def Let_def)

lemma insert_items_length: "insert_items rid seq items = Inr rows \<Longrightarrow> length rows = length items"
  by (induction items arbitrary: seq rows) (auto split: if_splits sum.splits)

lemma process_upload_new:
  assumes "\<not> check_if_receipt_exists db (merchant (parse_receipt_data now raw_text))
             (date (parse_receipt_data now raw_text)) (total (parse_receipt_data now raw_text))"
    and "insert_items (Suc (receipts_seq db)) (line_items_seq db) (parse_line_items_data raw_text) = Inr rows"
  shows "process_upload db now upload_time filename raw_text =
           (\<lparr>receipts = receipts db @
                 [\<lparr>r_id = Suc (receipts_seq db),
                   r_merchant = merchant (parse_receipt_data now raw_text),
                   r_date = date (parse_receipt_data now raw_text),
                   r_total_amount = total (parse_receipt_data now raw_text),
                   r_tax_amount = tax (parse_receipt_data now raw_text),
                   r_filename = filename, r_upload_timestamp = upload_time\<rparr>],
              line_items = line_items db @ rows,
              receipts_seq = Suc (receipts_seq db),
              line_items_seq = line_items_seq db + length rows\<rparr>, Saved)"
  using assms by (simp add: process_upload_def save_receipt_to_db_def Let_def)

text \<open>
  Claim C10. When the duplicate check of \<open>app.py\<close> finds a stored receipt with the parsed
  merchant, date and total, the upload handler leaves the store as it was: neither the
  table \<open>receipts\<close> nor the table \<open>line_items\<close> changes, and the handler reports the
  duplicate.
\<close>

theorem duplicate_upload_not_persisted:
  assumes "check_if_receipt_exists db (merchant (parse_receipt_data now raw_text))
             (date (parse_receipt_data now raw_text)) (total (parse_receipt_data now raw_text))"
  shows "fst (process_upload db now upload_time filename raw_text) = db
       \<and> receipts (fst (process_upload db now upload_time filename raw_text)) = receipts db
       \<and> line_items (fst (process_upload db now upload_time filename raw_text)) = line_items db
       \<and> snd (process_upload db now upload_time filename raw_text) =
           Duplicate_Detected (''Duplicate Receipt Detected from ''
                  @ merchant (parse_receipt_data now raw_text) @ ''!'')"
  using process_upload_duplicate[OF assms] by simp

lemma example_is_duplicate:
  "check_if_receipt_exists example_vault (merchant (parse_receipt_data now example_text))
     (date (parse_receipt_data now example_text)) (total (parse_receipt_data now example_text))"
  by (simp add: parse_example check_if_receipt_exists_def example_vault_def feq_def)

theorem duplicate_upload_not_persisted_witness:
  "check_if_receipt_exists example_vault (merchant (parse_receipt_data ''2024-02-01'' example_text))
     (date (parse_receipt_data ''2024-02-01'' example_text)) (total (parse_receipt_data ''2024-02-01'' example_text))
   \<and> fst (process_upload example_vault ''2024-02-01'' ''2024-02-01 09:30:00'' ''again.png'' example_text)
       = example_vault
   \<and> snd (process_upload example_vault ''2024-02-01'' ''2024-02-01 09:30:00'' ''again.png'' example_text)
       = Duplicate_Detected ''Duplicate Receipt Detected from Acme Mart!''"
  using duplicate_upload_not_persisted[OF example_is_duplicate,
          of "''2024-02-01''" "''2024-02-01 09:30:00''" "''again.png''"]
        example_is_duplicate[of "''2024-02-01''"]
  by (simp add: parse_example)

section \<open>The extractors and the clock\<close>

lemma no_date_in_shop: "re_search False date_pattern ''Shop'' = None"
  by code_simp

lemma date_of_match:
  "re_search False date_pattern text = Some m \<Longrightarrow>
     date (parse_receipt_data now text) = take (m_end m - m_start m) (drop (m_start m) text)"
  by (simp add: parse_receipt_data_def Let_def)

lemma date_of_clock:
  "re_search False date_pattern text = None \<Longrightarrow> date (parse_receipt_data now text) = now"
  by (simp add: parse_receipt_data_def Let_def)

lemma other_fields_no_clock:
  "merchant (parse_receipt_data now1 text) = merchant (parse_receipt_data now2 text)"
  "total (parse_receipt_data now1 text) = total (parse_receipt_data now2 text)"
  "tax (parse_receipt_data now1 text) = tax (parse_receipt_data now2 text)"
  by (simp_all add: parse_receipt_data_def Let_def)

text \<open>
  Claim C8 as stated fails on the code. The claim says that two runs of the field extractor on
  the same text give the same fields, with no dependence on the clock. A text without a
  date, here the one line \<^verbatim>\<open>Shop\<close>, gets the current day as its date
  (\<^verbatim>\<open>datetime.now().strftime("%Y-%m-%d")\<close> in the \<open>else\<close> branch of \<open>parse_receipt_data\<close>), so a
  run on 2024-01-01 and a run on 2024-01-02 return different fields.
\<close>

theorem extraction_depends_on_clock:
  "date (parse_receipt_data ''2024-01-01'' ''Shop'') = ''2024-01-01''
   \<and> date (parse_receipt_data ''2024-01-02'' ''Shop'') = ''2024-01-02''
   \<and> parse_receipt_data ''2024-01-01'' ''Shop'' \<noteq> parse_receipt_data ''2024-01-02'' ''Shop''"
proof -
  have a: "date (parse_receipt_data ''2024-01-01'' ''Shop'') = ''2024-01-01''"
    by (rule date_of_clock[OF no_date_in_shop])
  have b: "date (parse_receipt_data ''2024-01-02'' ''Shop'') = ''2024-01-02''"
    by (rule date_of_clock[OF no_date_in_shop])
  have "parse_receipt_data ''2024-01-01'' ''Shop'' \<noteq> parse_receipt_data ''2024-01-02'' ''Shop''"
  proof
    assume "parse_receipt_data ''2024-01-01'' ''Shop'' = parse_receipt_data ''2024-01-02'' ''Shop''"
    then have "date (parse_receipt_data ''2024-01-01'' ''Shop'') = date (parse_receipt_data ''2024-01-02'' ''Shop'')"
      by simp
    then show False unfolding a b by simp
  qed
  with a b show ?thesis by blast
qed

text \<open>
  Claim C8, amended. For every text and every two readings of the clock, two runs of
  \<open>parse_receipt_data\<close> agree on merchant, total and tax; when the date pattern matches somewhere
  in the text they agree on all four fields, and when it matches nowhere the date of each run
  is the day of that run. \<open>parse_line_items_data\<close> reads no clock and keeps no state: the text
  is its only input.
\<close>

theorem extraction_repeatable:
  "merchant (parse_receipt_data now1 text) = merchant (parse_receipt_data now2 text)
   \<and> total (parse_receipt_data now1 text) = total (parse_receipt_data now2 text)
   \<and> tax (parse_receipt_data now1 text) = tax (parse_receipt_data now2 text)
   \<and> (re_search False date_pattern text \<noteq> None \<longrightarrow>
        parse_receipt_data now1 text = parse_receipt_data now2 text)
   \<and> (re_search False date_pattern text = None \<longrightarrow>
        date (parse_receipt_data now1 text) = now1 \<and> date (parse_receipt_data now2 text) = now2)"
proof (intro conjI impI)
  assume "re_search False date_pattern text \<noteq> None"
  then obtain m where m: "re_search False date_pattern text = Some m" by blast
  show "parse_receipt_data now1 text = parse_receipt_data now2 text"
    by (simp add: parse_receipt_data_def Let_def m)
qed (simp_all add: other_fields_no_clock date_of_clock)

text \<open>The amended claim at the example receipt, which has a date, and at the text \<^verbatim>\<open>Shop\<close>.\<close>

theorem extraction_repeatable_witness:
  "re_search False date_pattern example_text \<noteq> None
   \<and> parse_receipt_data ''2024-02-01'' example_text = parse_receipt_data ''2025-03-02'' example_text
   \<and> re_search False date_pattern ''Shop'' = None
   \<and> date (parse_receipt_data ''2024-02-01'' ''Shop'') = ''2024-02-01''
   \<and> date (parse_receipt_data ''2025-03-02'' ''Shop'') = ''2025-03-02''"
  using extraction_repeatable[of "''2024-02-01''" example_text "''2025-03-02''"]
        extraction_repeatable[of "''2024-02-01''" "''Shop''" "''2025-03-02''"]
  by (simp add: ex_date_match no_date_in_shop)

section \<open>The line-item extractor\<close>

subsection \<open>Trimming, digits and prices\<close>













subsection \<open>Summary and payment lines\<close>

lemma str_in_iff: "str_in x s = (\<exists>a b. s = a @ x @ b)"
proof (induction s)
  case Nil
  then show ?case by auto
next
  case (Cons c cs)
  show ?case
  proof
    assume "str_in x (c # cs)"
    then consider "take (length x) (c # cs) = x" | "str_in x cs" by auto
    then show "\<exists>a b. c # cs = a @ x @ b"
    proof cases
      case 1
      have "c # cs = take (length x) (c # cs) @ drop (length x) (c # cs)"
        by (simp only: append_take_drop_id)
      then have "c # cs = [] @ x @ drop (length x) (c # cs)" using 1 by simp
      then show ?thesis by blast
    next
      case 2
      then obtain a b where "cs = a @ x @ b" using Cons.IH by blast
      then have "c # cs = (c # a) @ x @ b" by simp
      then show ?thesis by blast
    qed
  next
    assume "\<exists>a b. c # cs = a @ x @ b"
    then obtain a b where ab: "c # cs = a @ x @ b" by blast
    show "str_in x (c # cs)"
    proof (cases a)
      case Nil
      then have "take (length x) (c # cs) = x" using ab by simp
      then show ?thesis by simp
    next
      case (Cons a0 a')
      then have "cs = a' @ x @ b" using ab by simp
      then have "str_in x cs" using Cons.IH by blast
      then show ?thesis by simp
    qed
  qed
qed

lemma of_char_py_lower:
  "(of_char (py_lower c) :: nat) =
     (if (65 \<le> (of_char c :: nat) \<and> (of_char c :: nat) \<le> 90)
         \<or> (192 \<le> (of_char c :: nat) \<and> (of_char c :: nat) \<le> 222 \<and> (of_char c :: nat) \<noteq> 215)
      then of_char c + 32 else of_char c)"
  by (auto simp: py_lower_def Let_def)

lemma py_isspace_code:
  "py_isspace c = ((of_char c :: nat) \<in> {9, 10, 11, 12, 13, 28, 29, 30, 31, 32, 133, 160})"
proof -
  have e: "\<And>d. (c = d) = ((of_char c :: nat) = of_char d)" by simp
  show ?thesis by (simp add: py_isspace_def e)
qed

lemma py_lower_space: "py_isspace (py_lower c) = py_isspace c"
  unfolding py_isspace_code of_char_py_lower by auto

lemma dropWhile_keeps:
  assumes "w \<noteq> []" "\<not> P (hd w)"
  shows "\<exists>a'. dropWhile P (a @ w @ b) = a' @ w @ b"
proof (induction a)
  case Nil
  have "dropWhile P (w @ b) = w @ b" using assms by (cases w) simp_all
  then show ?case by (intro exI[of _ "[]"]) simp
next
  case (Cons c a)
  then show ?case by (cases "P c") (auto intro: exI[of _ "c # a"])
qed

lemma strip_keeps:
  assumes "w \<noteq> []" "\<not> py_isspace (hd w)" "\<not> py_isspace (last w)"
  shows "\<exists>a' b'. strip (a @ w @ b) = a' @ w @ b'"
proof -
  obtain a' where a': "dropWhile py_isspace (a @ w @ b) = a' @ w @ b"
    using dropWhile_keeps[where P=py_isspace and w=w and a=a and b=b, OF assms(1,2)] by blast
  have rw: "rev w \<noteq> []" "\<not> py_isspace (hd (rev w))"
    using assms(1,3) by (simp_all add: hd_rev)
  obtain b' where b': "dropWhile py_isspace (rev b @ rev w @ rev a') = b' @ rev w @ rev a'"
    using dropWhile_keeps[where P=py_isspace and w="rev w" and a="rev b" and b="rev a'", OF rw]
    by blast
  have "strip (a @ w @ b) = rev (dropWhile py_isspace (rev b @ rev w @ rev a'))"
    by (simp add: strip_def a')
  also have "\<dots> = a' @ w @ rev b'" by (simp add: b')
  finally show ?thesis by blast
qed

lemma str_in_lower_strip:
  assumes "w \<noteq> []" "\<forall>c \<in> set w. \<not> py_isspace c" "str_in w (lower s)"
  shows "str_in w (lower (strip s))"
proof -
  obtain a b where ab: "lower s = a @ w @ b" using assms(3) by (auto simp: str_in_iff)
  then have "map py_lower s = a @ (w @ b)" by (simp add: lower_def)
  then obtain a0 r0 where s1: "s = a0 @ r0" and a0: "a = map py_lower a0"
    and r0: "w @ b = map py_lower r0"
    unfolding map_eq_append_conv by blast
  from r0[symmetric] obtain w0 b0 where s2: "r0 = w0 @ b0" and w0': "w = map py_lower w0"
    and b0: "b = map py_lower b0"
    unfolding map_eq_append_conv by blast
  have w0: "map py_lower w0 = w" using w0' by simp
  have ne: "w0 \<noteq> []" using w0 assms(1) by auto
  have "\<forall>c \<in> set w0. \<not> py_isspace c"
  proof
    fix c assume "c \<in> set w0"
    then have "py_lower c \<in> set w" using w0 by auto
    then have "\<not> py_isspace (py_lower c)" using assms(2) by blast
    then show "\<not> py_isspace c" by (simp add: py_lower_space)
  qed
  then have "\<not> py_isspace (hd w0)" "\<not> py_isspace (last w0)" using ne by simp_all
  from strip_keeps[OF ne this]
  obtain a' b' where "strip (a0 @ w0 @ b0) = a' @ w0 @ b'" by blast
  then have "lower (strip s) = lower a' @ w @ lower b'"
    by (simp add: s1 s2 lower_def w0)
  then show ?thesis unfolding str_in_iff by blast
qed

lemma summary_words_plain:
  "w \<in> set summary_words \<Longrightarrow> w \<noteq> [] \<and> (\<forall>c \<in> set w. \<not> py_isspace c)"
  by (auto simp: summary_words_def py_isspace_def)

lemma summary_line_skipped:
  assumes "re_search False price_pattern (strip l) = Some pm"
    and "w \<in> set summary_words"
    and "str_in w (lower (take (m_start pm) (strip l)))"
  shows "parse_line l = None"
proof -
  have "str_in w (lower (strip (take (m_start pm) (strip l))))"
    using summary_words_plain[OF assms(2)] assms(3) by (intro str_in_lower_strip) simp_all
  then have "list_ex (\<lambda>x. str_in x (lower (strip (take (m_start pm) (strip l))))) summary_words"
    using assms(2) by (auto simp: list_ex_iff)
  then show ?thesis
    by (simp add: parse_line_def Let_def assms(1) split: sum.splits)
qed

lemma visa_line: "parse_line ''VISA ****1234   45.00'' = None"
  by code_simp

lemma visa_price_match:
  "re_search False price_pattern (strip ''VISA ****1234   45.00'')
     = Some \<lparr>m_start = 15, m_end = 21, m_group = ''45.00''\<rparr>"
  by code_simp

lemma visa_word: "str_in ''visa'' (lower (take 15 (strip ''VISA ****1234   45.00'')))"
  by code_simp

lemma visa_items: "parse_line_items_data ''VISA ****1234   45.00'' = []"
  by code_simp

text \<open>
  Claim C5. For every line on which the price pattern matches (the line is trimmed first, as
  the code does), if the lower-cased text before the matched price contains one of the words
  total, amount, due, visa, mastercard, cash, change, tax, the extractor emits no item for
  that line; the items of a text are the items of its lines. The line
  \<^verbatim>\<open>VISA ****1234   45.00\<close> produces no item.
\<close>

theorem summary_lines_excluded:
  "(re_search False price_pattern (strip l) = Some pm \<and> w \<in> set summary_words
      \<and> str_in w (lower (take (m_start pm) (strip l))) \<longrightarrow> parse_line l = None)
   \<and> parse_line_items_data text = List.map_filter parse_line (split_lines text)
   \<and> parse_line ''VISA ****1234   45.00'' = None
   \<and> parse_line_items_data ''VISA ****1234   45.00'' = []"
  using summary_line_skipped[of l pm w] visa_line visa_items
  by (simp add: parse_line_items_data_def)

text \<open>The claim at the line \<^verbatim>\<open>VISA ****1234   45.00\<close>, whose price match starts at offset 15.\<close>

theorem summary_lines_excluded_witness:
  "re_search False price_pattern (strip ''VISA ****1234   45.00'')
     = Some \<lparr>m_start = 15, m_end = 21, m_group = ''45.00''\<rparr>
   \<and> ''visa'' \<in> set summary_words
   \<and> str_in ''visa'' (lower (take 15 (strip ''VISA ****1234   45.00'')))
   \<and> parse_line ''VISA ****1234   45.00'' = None"
proof -
  have w: "''visa'' \<in> set summary_words" by (simp add: summary_words_def)
  have s: "str_in ''visa'' (lower (take (m_start \<lparr>m_start = 15, m_end = 21, m_group = ''45.00''\<rparr>)
             (strip ''VISA ****1234   45.00'')))"
    using visa_word by simp
  have "parse_line ''VISA ****1234   45.00'' = None"
    using summary_lines_excluded[of "''VISA ****1234   45.00''"
            "\<lparr>m_start = 15, m_end = 21, m_group = ''45.00''\<rparr>" "''visa''", THEN conjunct1]
          visa_price_match w s by blast
  then show ?thesis using visa_price_match w visa_word by blast
qed

subsection \<open>Quantities\<close>



lemma in_cls_digit [simp]: "in_cls ic [Digit] c = py_isdigit c"
  by (simp add: in_cls_def)

lemma in_cls_space [simp]: "in_cls ic [Space] c = py_isspace c"
  by (simp add: in_cls_def)

lemma in_cls_x [simp]: "in_cls False [Ch CHR ''x'', Ch CHR ''X''] c = (c = CHR ''x'' \<or> c = CHR ''X'')"
  by (auto simp: in_cls_def ch_eq_def)




















end
